theory Spec2Isabelle
  imports Complex_Main "HOL-Library.Log_Nat"
begin

section \<open>Python, NumPy and tensor primitives used by the schedulers\<close>

text \<open>
  The schedulers of \<^verbatim>\<open>refiners.foundationals.latent_diffusion.schedulers\<close> are
  embedded as HOL functions.  Exceptions are values of type \<open>error\<close>; a call that can
  raise returns \<open>error + 'a\<close>.  Python integers are \<open>int\<close>.

  Floating-point numbers are the real numbers they denote.  The schedule arrays
  built by the constructor, the conversion of \<^verbatim>\<open>to\<close> and the double-precision
  \<^verbatim>\<open>numpy.linspace\<close> behind the timestep sequence are rounded to their format
  (to nearest, ties to even).  The arithmetic on the sample tensors in \<^verbatim>\<open>add_noise\<close>
  and in the solver step is exact: the formulas are those of the source, their
  rounding is not modelled.  Infinities and NaN have no counterpart, and memory is
  unbounded.
\<close>

datatype error = IndexError | RuntimeError | ValueError

definition bind_err :: "error + 'a \<Rightarrow> ('a \<Rightarrow> error + 'b) \<Rightarrow> error + 'b" where
  "bind_err m f = (case m of Inl e \<Rightarrow> Inl e | Inr v \<Rightarrow> f v)"

text \<open>Indexing a sequence with an integer: a negative index counts from the end, an
  index outside \<open>[-n, n)\<close> raises \<^verbatim>\<open>IndexError\<close>.\<close>

definition py_index :: "'a list \<Rightarrow> int \<Rightarrow> error + 'a" where
  "py_index xs i =
     (let n = int (length xs); j = (if i < 0 then i + n else i)
      in if j < 0 \<or> n \<le> j then Inl IndexError else Inr (xs ! nat j))"

text \<open>An integer argument of the tensor library is unpacked into a signed 64-bit
  integer; a Python integer that does not fit raises \<^verbatim>\<open>ValueError\<close>.\<close>

definition unpack_long :: "int \<Rightarrow> error + int" where
  "unpack_long i = (if - (2 ^ 63) \<le> i \<and> i < 2 ^ 63 then Inr i else Inl ValueError)"

text \<open>Indexing a one-dimensional tensor with a Python integer, as in
  \<^verbatim>\<open>self.timesteps[step]\<close>.  The tensor library unpacks the index before it checks
  the bounds, so an index outside the 64-bit range raises \<^verbatim>\<open>ValueError\<close> and not
  \<^verbatim>\<open>IndexError\<close>.  A tensor has fewer than \<open>2^63\<close> elements, so an index within
  \<open>[-n, n)\<close> always fits: it is read as it is.\<close>

definition tensor_item :: "'a list \<Rightarrow> int \<Rightarrow> error + 'a" where
  "tensor_item xs i =
     (let n = int (length xs)
      in if - n \<le> i \<and> i < n then py_index xs i
         else bind_err (unpack_long i) (\<lambda>j. py_index xs j))"

subsection \<open>Tensors with broadcasting\<close>

text \<open>A float tensor is its shape and its elements in row-major order.\<close>

record tensor =
  shape :: "nat list"
  data :: "real list"

definition wf_tensor :: "tensor \<Rightarrow> bool" where
  "wf_tensor t = (length (data t) = prod_list (shape t))"

definition scalar_tensor :: "real \<Rightarrow> tensor" where
  "scalar_tensor v = \<lparr>shape = [], data = [v]\<rparr>"

text \<open>\<^verbatim>\<open>tensor([])\<close>: one dimension of size zero.\<close>

definition empty_tensor :: tensor where
  "empty_tensor = \<lparr>shape = [0], data = []\<rparr>"

definition tensor_map :: "(real \<Rightarrow> real) \<Rightarrow> tensor \<Rightarrow> tensor" where
  "tensor_map f t = \<lparr>shape = shape t, data = map f (data t)\<rparr>"

text \<open>\<^verbatim>\<open>t.unsqueeze(-1)\<close>: a new last dimension of size one.\<close>

definition unsqueeze_last :: "tensor \<Rightarrow> tensor" where
  "unsqueeze_last t = \<lparr>shape = shape t @ [1], data = data t\<rparr>"

text \<open>Broadcasting of two shapes, read from the last dimension backwards: equal sizes
  match, a size of one stretches, anything else is a \<^verbatim>\<open>RuntimeError\<close>.\<close>

fun broadcast_dims :: "nat list \<Rightarrow> nat list \<Rightarrow> error + nat list" where
  "broadcast_dims [] bs = Inr bs"
| "broadcast_dims (a # as) [] = Inr (a # as)"
| "broadcast_dims (a # as) (b # bs) =
     (case broadcast_dims as bs of
        Inl e \<Rightarrow> Inl e
      | Inr ds \<Rightarrow>
          if a = b \<or> b = 1 then Inr (a # ds)
          else if a = 1 then Inr (b # ds)
          else Inl RuntimeError)"

definition broadcast_shapes :: "nat list \<Rightarrow> nat list \<Rightarrow> error + nat list" where
  "broadcast_shapes s1 s2 = map_sum id rev (broadcast_dims (rev s1) (rev s2))"

definition pad_shape :: "nat \<Rightarrow> nat list \<Rightarrow> nat list" where
  "pad_shape r s = replicate (r - length s) 1 @ s"

text \<open>\<open>expand ds ts xs\<close> stretches the elements \<open>xs\<close> of a tensor of shape \<open>ds\<close> to
  the shape \<open>ts\<close> of the same rank, repeating along every dimension whose size
  differs (it is one in \<open>ds\<close> there).\<close>

fun expand :: "nat list \<Rightarrow> nat list \<Rightarrow> 'a list \<Rightarrow> 'a list" where
  "expand (d # ds) (t # ts) xs =
     (let n = prod_list ds;
          rows = map (\<lambda>i. expand ds ts (take n (drop (i * n) xs))) [0..<d]
      in if d = t then concat rows else concat (replicate t (concat rows)))"
| "expand _ _ xs = xs"

text \<open>An elementwise binary operator of the tensor library.\<close>

definition broadcast_op :: "(real \<Rightarrow> real \<Rightarrow> real) \<Rightarrow> tensor \<Rightarrow> tensor \<Rightarrow> error + tensor" where
  "broadcast_op f a b =
     (case broadcast_shapes (shape a) (shape b) of
        Inl e \<Rightarrow> Inl e
      | Inr s \<Rightarrow>
          Inr \<lparr>shape = s,
               data = map2 f (expand (pad_shape (length s) (shape a)) s (data a))
                             (expand (pad_shape (length s) (shape b)) s (data b))\<rparr>)"

text \<open>An integer tensor used as an index: zero-dimensional (as \<^verbatim>\<open>timesteps[i]\<close>) or
  one-dimensional (as \<^verbatim>\<open>tensor([0])\<close>).  Indexing a one-dimensional array with the
  former gives a zero-dimensional tensor, with the latter a tensor of the index's
  length.\<close>

datatype index_tensor = Idx0 int | Idx1 "int list"

fun index_all :: "real list \<Rightarrow> int list \<Rightarrow> error + real list" where
  "index_all arr [] = Inr []"
| "index_all arr (i # is) =
     bind_err (py_index arr i) (\<lambda>v. bind_err (index_all arr is) (\<lambda>vs. Inr (v # vs)))"

fun tensor_index :: "real list \<Rightarrow> index_tensor \<Rightarrow> error + tensor" where
  "tensor_index arr (Idx0 i) = bind_err (py_index arr i) (\<lambda>v. Inr (scalar_tensor v))"
| "tensor_index arr (Idx1 is) =
     bind_err (index_all arr is) (\<lambda>vs. Inr \<lparr>shape = [length is], data = vs\<rparr>)"

subsection \<open>Double-precision \<^verbatim>\<open>numpy.linspace\<close>\<close>

text \<open>\<^verbatim>\<open>ndarray.round()\<close>: to the nearest integer, a tie to the even one.\<close>

definition round_half_even :: "rat \<Rightarrow> int" where
  "round_half_even q =
     (let f = \<lfloor>q\<rfloor>; r = q - of_int f
      in if r < 1 / 2 then f
         else if 1 / 2 < r then f + 1
         else if even f then f else f + 1)"

definition pow2 :: "int \<Rightarrow> rat" where
  "pow2 e = (if 0 \<le> e then 2 ^ nat e else 1 / 2 ^ nat (- e))"

text \<open>The binary exponent \<open>e\<close> of a non-zero rational: \<open>2^e \<le> |q| < 2^(e+1)\<close>.\<close>

definition exponent2 :: "rat \<Rightarrow> int" where
  "exponent2 q =
     (let (n, d) = quotient_of \<bar>q\<bar>; e = bitlen n - bitlen d
      in if pow2 e \<le> \<bar>q\<bar> then e else e - 1)"

text \<open>Rounding to the nearest binary64 number (53 significant bits, ties to even).
  Overflow and subnormal numbers are outside the model.\<close>

definition binary64 :: "rat \<Rightarrow> rat" where
  "binary64 q =
     (if q = 0 then 0
      else let u = pow2 (exponent2 q - 52)
           in of_int (round_half_even (q / u)) * u)"

text \<open>\<^verbatim>\<open>numpy.linspace(start, stop, num)\<close> with its default \<^verbatim>\<open>endpoint=True\<close>: the
  samples are \<open>i * step + start\<close> computed in binary64, and the last one is set to
  \<open>stop\<close> itself.  A negative \<open>num\<close> raises \<^verbatim>\<open>ValueError\<close>.\<close>

definition np_linspace :: "rat \<Rightarrow> rat \<Rightarrow> int \<Rightarrow> error + rat list" where
  "np_linspace start stop num =
     (if num < 0 then Inl ValueError
      else
        let divisor = num - 1;
            delta = binary64 (stop - start);
            y = map rat_of_int [0..num - 1];
            y1 = (if 0 < divisor then
                    (let step = binary64 (delta / of_int divisor)
                     in if step = 0
                        then map (\<lambda>v. binary64 (binary64 (v / of_int divisor) * delta)) y
                        else map (\<lambda>v. binary64 (v * step)) y)
                  else map (\<lambda>v. binary64 (v * delta)) y);
            y2 = map (\<lambda>v. binary64 (v + start)) y1
        in Inr (if 1 < num then butlast y2 @ [stop] else y2))"

subsection \<open>Floating-point formats of the tensor library\<close>

datatype dtype = float16 | bfloat16 | float32 | float64

text \<open>The significand width in bits (with the hidden bit) and the exponents of the
  smallest and the largest binade of each format.\<close>

definition precision :: "dtype \<Rightarrow> nat" where
  "precision dt = (case dt of float16 \<Rightarrow> 11 | bfloat16 \<Rightarrow> 8 | float32 \<Rightarrow> 24 | float64 \<Rightarrow> 53)"

definition min_exponent :: "dtype \<Rightarrow> int" where
  "min_exponent dt =
     (case dt of float16 \<Rightarrow> - 14 | bfloat16 \<Rightarrow> - 126 | float32 \<Rightarrow> - 126 | float64 \<Rightarrow> - 1022)"

definition max_exponent :: "dtype \<Rightarrow> int" where
  "max_exponent dt =
     (case dt of float16 \<Rightarrow> 15 | bfloat16 \<Rightarrow> 127 | float32 \<Rightarrow> 127 | float64 \<Rightarrow> 1023)"

text \<open>To the nearest integer, a tie to the even one.\<close>

definition round_to_even :: "real \<Rightarrow> int" where
  "round_to_even y =
     (let f = \<lfloor>y\<rfloor>; r = y - of_int f
      in if r < 1 / 2 then f
         else if 1 / 2 < r then f + 1
         else if even f then f else f + 1)"

text \<open>Rounding a real number to \<open>p\<close> significant bits, to nearest and ties to even,
  with gradual underflow below the binade of exponent \<open>emin\<close>: the result is a
  multiple of the unit in the last place of the binade of \<open>x\<close>.  Overflow to infinity
  is outside the model.\<close>

definition float_round :: "nat \<Rightarrow> int \<Rightarrow> real \<Rightarrow> real" where
  "float_round p emin x =
     (if x = 0 then 0
      else let e = max \<lfloor>log 2 \<bar>x\<bar>\<rfloor> emin;
               u = 2 powi (e - int p + 1)
           in of_int (round_to_even (x / u)) * u)"

definition round_to :: "dtype \<Rightarrow> real \<Rightarrow> real" where
  "round_to dt = float_round (precision dt) (min_exponent dt)"

text \<open>The numbers of a format: a significand of at most \<open>p\<close> bits times a power of
  two that is at least the smallest subnormal number; and among them the finite
  numbers of a dtype, up to its largest one.\<close>

definition in_format :: "nat \<Rightarrow> int \<Rightarrow> real \<Rightarrow> bool" where
  "in_format p emin x =
     (\<exists>m k. x = of_int m * 2 powi k \<and> \<bar>m\<bar> < 2 ^ p \<and> emin - int p + 1 \<le> k)"

definition largest :: "dtype \<Rightarrow> real" where
  "largest dt = (2 ^ precision dt - 1) * 2 powi (max_exponent dt - int (precision dt) + 1)"

definition representable :: "dtype \<Rightarrow> real \<Rightarrow> bool" where
  "representable dt x = (in_format (precision dt) (min_exponent dt) x \<and> \<bar>x\<bar> \<le> largest dt)"

text \<open>The type in which the CPU kernels of the tensor library accumulate.\<close>

definition acc_type :: "dtype \<Rightarrow> dtype" where
  "acc_type dt =
     (case dt of float16 \<Rightarrow> float32 | bfloat16 \<Rightarrow> float32 | float32 \<Rightarrow> float64
      | float64 \<Rightarrow> float64)"

subsection \<open>\<^verbatim>\<open>torch.linspace\<close> and \<^verbatim>\<open>cumprod\<close>\<close>

text \<open>\<^verbatim>\<open>torch.linspace(start, end, steps, dtype)\<close>, with \<open>rnd\<close> the rounding to the dtype.
  \<open>steps\<close> is unpacked into a 64-bit integer; a negative one raises \<^verbatim>\<open>RuntimeError\<close>.
  One step gives \<open>start\<close>.  Otherwise the first half of the values is counted up from
  \<open>start\<close> and the second half down from \<open>end\<close>, each operation rounded.  (The CPU
  kernel computes groups of consecutive elements in vector registers, which can
  change the last bit of an element; that grouping is not modelled.)\<close>

definition torch_linspace :: "(real \<Rightarrow> real) \<Rightarrow> real \<Rightarrow> real \<Rightarrow> int \<Rightarrow> error + real list" where
  "torch_linspace rnd start stop steps =
     bind_err (unpack_long steps) (\<lambda>n.
       if n < 0 then Inl RuntimeError
       else if n = 1 then Inr [rnd start]
       else
         let a = rnd start; b = rnd stop;
             step = rnd (rnd (b - a) / rnd (of_int (n - 1)));
             halfway = n div 2
         in Inr (map (\<lambda>idx. if idx < halfway
                            then rnd (a + rnd (step * rnd (of_int idx)))
                            else rnd (b - rnd (step * rnd (of_int (n - idx - 1)))))
                     [0..n - 1]))"

text \<open>\<^verbatim>\<open>Tensor.cumprod(dim=0)\<close>: the running product \<open>cum_number\<close> is kept in the
  accumulation type (rounding \<open>acc\<close>), and each prefix is stored rounded to the dtype
  (rounding \<open>rnd\<close>).\<close>

fun cumprod_from :: "(real \<Rightarrow> real) \<Rightarrow> (real \<Rightarrow> real) \<Rightarrow> real \<Rightarrow> real list \<Rightarrow> real list" where
  "cumprod_from acc rnd cum_number [] = []"
| "cumprod_from acc rnd cum_number (x # xs) =
     rnd (acc (cum_number * x)) # cumprod_from acc rnd (acc (cum_number * x)) xs"

definition cumprod :: "(real \<Rightarrow> real) \<Rightarrow> (real \<Rightarrow> real) \<Rightarrow> real list \<Rightarrow> real list" where
  "cumprod acc rnd xs = cumprod_from acc rnd 1 xs"

section \<open>\<^verbatim>\<open>Scheduler\<close>\<close>

text \<open>A device object of the tensor library: a device type and an optional index.\<close>

datatype device = TorchDevice string "nat option"

record scheduler =
  device :: device
  dtype :: dtype
  num_inference_steps :: int
  num_train_timesteps :: int
  initial_diffusion_rate :: real
  final_diffusion_rate :: real
  scale_factors :: "real list"
  cumulative_scale_factors :: "real list"
  noise_std :: "real list"
  signal_to_noise_ratios :: "real list"
  timesteps :: "int list"

text \<open>The four schedule arrays of \<^verbatim>\<open>Scheduler.__init__\<close> (its lines 36 to 48), from
  the two ends of the interpolation: every tensor operation rounds its result to the
  dtype.  The square root is correctly rounded; the logarithm is taken to be.  With
  the identity for \<open>acc\<close> and \<open>rnd\<close> these are the arrays of exact arithmetic.\<close>

definition schedule_arrays ::
  "(real \<Rightarrow> real) \<Rightarrow> (real \<Rightarrow> real) \<Rightarrow> real \<Rightarrow> real \<Rightarrow> int
     \<Rightarrow> error + (real list \<times> real list \<times> real list \<times> real list)" where
  "schedule_arrays acc rnd start stop steps =
     bind_err (torch_linspace rnd start stop steps) (\<lambda>betas.
       let sf = map (\<lambda>b. rnd (1 - rnd (b * b))) betas;
           csf = map (\<lambda>p. rnd (sqrt p)) (cumprod acc rnd sf);
           ns = map (\<lambda>p. rnd (sqrt (rnd (1 - p)))) (cumprod acc rnd sf);
           snr = map2 (\<lambda>c n. rnd (rnd (ln c) - rnd (ln n))) csf ns
       in Inr (sf, csf, ns, snr))"

text \<open>\<^verbatim>\<open>Scheduler.__init__\<close>.  \<open>Device\<close> is the tensor library's constructor of a device
  from a string, which raises for a string it does not know; it is called first.
  The abstract \<^verbatim>\<open>_generate_timesteps\<close> is the parameter \<open>generate\<close>, called last, after
  the four arrays are built.  The body has no check of its arguments: it raises only
  where a library call does.  \<^verbatim>\<open>rate ** 0.5\<close> is a Python float, the square root
  rounded to binary64; a negative rate makes it a complex number, which
  \<^verbatim>\<open>torch.linspace\<close> refuses for a real dtype.\<close>

definition Scheduler_init ::
  "(string \<Rightarrow> error + device) \<Rightarrow> (int \<Rightarrow> int \<Rightarrow> error + int list) \<Rightarrow> int \<Rightarrow> int \<Rightarrow> real \<Rightarrow> real
     \<Rightarrow> string \<Rightarrow> dtype \<Rightarrow> error + scheduler" where
  "Scheduler_init Device generate n_inference n_train initial_rate final_rate dev dt =
     bind_err (Device dev) (\<lambda>d.
       if initial_rate < 0 \<or> final_rate < 0 then Inl RuntimeError
       else
         bind_err (schedule_arrays (round_to (acc_type dt)) (round_to dt)
                     (round_to float64 (sqrt initial_rate))
                     (round_to float64 (sqrt final_rate)) n_train) (\<lambda>(sf, csf, ns, snr).
           bind_err (generate n_train n_inference) (\<lambda>ts.
             Inr \<lparr>device = d, dtype = dt,
                  num_inference_steps = n_inference,
                  num_train_timesteps = n_train,
                  initial_diffusion_rate = initial_rate,
                  final_diffusion_rate = final_rate,
                  scale_factors = sf,
                  cumulative_scale_factors = csf,
                  noise_std = ns,
                  signal_to_noise_ratios = snr,
                  timesteps = ts\<rparr>)))"

text \<open>\<^verbatim>\<open>Scheduler.add_noise\<close>.  It assigns to no attribute of the scheduler, so the
  model returns the result only.\<close>

definition add_noise :: "'a scheduler_scheme \<Rightarrow> tensor \<Rightarrow> tensor \<Rightarrow> int \<Rightarrow> error + tensor" where
  "add_noise s x noise step =
     bind_err (tensor_item (timesteps s) step) (\<lambda>timestep.
     bind_err (tensor_index (cumulative_scale_factors s) (Idx0 timestep)) (\<lambda>c.
     bind_err (tensor_index (noise_std s) (Idx0 timestep)) (\<lambda>n.
       let cumulative_scale_factors' = unsqueeze_last (unsqueeze_last c);
           noise_stds = unsqueeze_last (unsqueeze_last n)
       in bind_err (broadcast_op (*) cumulative_scale_factors' x) (\<lambda>a.
          bind_err (broadcast_op (*) noise_stds noise) (\<lambda>b.
            broadcast_op (+) a b)))))"

text \<open>\<^verbatim>\<open>Scheduler.to\<close>.  A device is constructed from its string, which can raise;
  moving a tensor to a device keeps its values.  Converting a tensor to a dtype
  rounds each stored element to that dtype.\<close>

definition Scheduler_to ::
  "(string \<Rightarrow> error + device) \<Rightarrow> 'a scheduler_scheme \<Rightarrow> string option \<Rightarrow> dtype option
     \<Rightarrow> error + 'a scheduler_scheme" where
  "Scheduler_to Device s dev dt =
     bind_err (case dev of None \<Rightarrow> Inr s
               | Some name \<Rightarrow>
                   bind_err (Device name) (\<lambda>d. Inr (s\<lparr>device := d, timesteps := timesteps s\<rparr>)))
       (\<lambda>s1.
          let s2 = (case dt of None \<Rightarrow> s1 | Some t \<Rightarrow> s1\<lparr>dtype := t\<rparr>);
              convert = (case dt of None \<Rightarrow> (\<lambda>xs. xs) | Some t \<Rightarrow> map (round_to t))
          in Inr (s2\<lparr>scale_factors := convert (scale_factors s2),
                     cumulative_scale_factors := convert (cumulative_scale_factors s2),
                     noise_std := convert (noise_std s2),
                     signal_to_noise_ratios := convert (signal_to_noise_ratios s2)\<rparr>))"

section \<open>\<^verbatim>\<open>DPMSolver\<close>\<close>

record solver = scheduler +
  estimated_data :: "tensor list"
  initial_steps :: int

text \<open>\<^verbatim>\<open>deque.append\<close> on a deque with \<^verbatim>\<open>maxlen\<close>: the oldest entries fall out.\<close>

definition deque_append :: "nat \<Rightarrow> 'a list \<Rightarrow> 'a \<Rightarrow> 'a list" where
  "deque_append maxlen xs x = (let ys = xs @ [x] in drop (length ys - maxlen) ys)"

text \<open>\<^verbatim>\<open>DPMSolver._generate_timesteps\<close>.\<close>

definition generate_timesteps :: "int \<Rightarrow> int \<Rightarrow> error + int list" where
  "generate_timesteps n_train n_inference =
     bind_err (np_linspace 0 (binary64 (of_int (n_train - 1))) (n_inference + 1)) (\<lambda>ys.
       Inr (rev (drop 1 (map round_half_even ys))))"

text \<open>\<^verbatim>\<open>DPMSolver.__init__\<close>.\<close>

definition DPMSolver_init ::
  "(string \<Rightarrow> error + device) \<Rightarrow> int \<Rightarrow> int \<Rightarrow> real \<Rightarrow> real \<Rightarrow> string \<Rightarrow> error + solver" where
  "DPMSolver_init Device n_inference n_train initial_rate final_rate dev =
     bind_err (Scheduler_init Device generate_timesteps n_inference n_train initial_rate
                 final_rate dev float32) (\<lambda>s.
       Inr (scheduler.extend s
              (solver.fields (replicate 2 empty_tensor) 0)))"

text \<open>\<^verbatim>\<open>DPMSolver.dpm_solver_first_order_update\<close>.\<close>

definition dpm_solver_first_order_update :: "solver \<Rightarrow> tensor \<Rightarrow> tensor \<Rightarrow> int \<Rightarrow> error + tensor" where
  "dpm_solver_first_order_update s x noise step =
     bind_err (tensor_item (timesteps s) step) (\<lambda>timestep.
     bind_err (tensor_item (timesteps s)
                 (if step < int (length (timesteps s)) - 1 then step + 1 else 0)) (\<lambda>previous_timestep.
     bind_err (tensor_index (signal_to_noise_ratios s) (Idx0 previous_timestep)) (\<lambda>previous_ratio.
     bind_err (tensor_index (signal_to_noise_ratios s) (Idx0 timestep)) (\<lambda>current_ratio.
     bind_err (tensor_index (cumulative_scale_factors s) (Idx0 previous_timestep)) (\<lambda>previous_scale_factor.
     bind_err (tensor_index (noise_std s) (Idx0 previous_timestep)) (\<lambda>previous_noise_std.
     bind_err (tensor_index (noise_std s) (Idx0 timestep)) (\<lambda>current_noise_std.
     bind_err (broadcast_op (-) previous_ratio current_ratio) (\<lambda>d.
       let exp_factor = tensor_map exp (tensor_map uminus d)
       in bind_err (broadcast_op (/) previous_noise_std current_noise_std) (\<lambda>r.
          bind_err (broadcast_op (*) r x) (\<lambda>a.
          bind_err (broadcast_op (*) previous_scale_factor
                      (tensor_map (\<lambda>v. v - 1) exp_factor)) (\<lambda>c.
          bind_err (broadcast_op (*) c noise) (\<lambda>b.
            broadcast_op (-) a b))))))))))))"

text \<open>The three timesteps of \<^verbatim>\<open>multistep_dpm_solver_second_order_update\<close>, in the
  order the source evaluates them.\<close>

definition second_order_timesteps ::
  "solver \<Rightarrow> int \<Rightarrow> error + (index_tensor \<times> index_tensor \<times> index_tensor)" where
  "second_order_timesteps s step =
     bind_err (if step < int (length (timesteps s)) - 1
               then bind_err (tensor_item (timesteps s) (step + 1)) (\<lambda>t. Inr (Idx0 t))
               else Inr (Idx1 [0])) (\<lambda>previous_timestep.
     bind_err (tensor_item (timesteps s) step) (\<lambda>current_timestep.
     bind_err (tensor_item (timesteps s) (step - 1)) (\<lambda>next_timestep.
       Inr (previous_timestep, Idx0 current_timestep, Idx0 next_timestep))))"

text \<open>The rest of the second-order update, from the three timesteps on.\<close>

definition second_order_formula ::
  "solver \<Rightarrow> index_tensor \<Rightarrow> index_tensor \<Rightarrow> index_tensor \<Rightarrow> tensor \<Rightarrow> error + tensor" where
  "second_order_formula s previous_timestep current_timestep next_timestep x =
     bind_err (py_index (estimated_data s) (- 1)) (\<lambda>current_data_estimation.
     bind_err (py_index (estimated_data s) (- 2)) (\<lambda>next_data_estimation.
     bind_err (tensor_index (signal_to_noise_ratios s) previous_timestep) (\<lambda>previous_ratio.
     bind_err (tensor_index (signal_to_noise_ratios s) current_timestep) (\<lambda>current_ratio.
     bind_err (tensor_index (signal_to_noise_ratios s) next_timestep) (\<lambda>next_ratio.
     bind_err (tensor_index (cumulative_scale_factors s) previous_timestep) (\<lambda>previous_scale_factor.
     bind_err (tensor_index (noise_std s) previous_timestep) (\<lambda>previous_std.
     bind_err (tensor_index (noise_std s) current_timestep) (\<lambda>current_std.
     bind_err (broadcast_op (-) current_data_estimation next_data_estimation) (\<lambda>dd.
     bind_err (broadcast_op (-) current_ratio next_ratio) (\<lambda>d1.
     bind_err (broadcast_op (-) previous_ratio current_ratio) (\<lambda>d2.
     bind_err (broadcast_op (/) d1 d2) (\<lambda>q.
     bind_err (broadcast_op (/) dd q) (\<lambda>estimation_delta.
       let exp_neg_factor = tensor_map exp (tensor_map uminus d2)
       in bind_err (broadcast_op (/) previous_std current_std) (\<lambda>r.
          bind_err (broadcast_op (*) r x) (\<lambda>a.
          bind_err (broadcast_op (*) previous_scale_factor
                      (tensor_map (\<lambda>v. v - 1) exp_neg_factor)) (\<lambda>c.
          bind_err (broadcast_op (*) c current_data_estimation) (\<lambda>b.
          bind_err (broadcast_op (-) a b) (\<lambda>ab.
          bind_err (broadcast_op (*) (tensor_map (\<lambda>v. (1 / 2) * v) c) estimation_delta) (\<lambda>h.
            broadcast_op (-) ab h)))))))))))))))))))"

text \<open>\<^verbatim>\<open>DPMSolver.multistep_dpm_solver_second_order_update\<close>.\<close>

definition multistep_dpm_solver_second_order_update :: "solver \<Rightarrow> tensor \<Rightarrow> int \<Rightarrow> error + tensor" where
  "multistep_dpm_solver_second_order_update s x step =
     bind_err (second_order_timesteps s step) (\<lambda>(previous_timestep, current_timestep, next_timestep).
       second_order_formula s previous_timestep current_timestep next_timestep x)"

text \<open>The data estimate of \<^verbatim>\<open>DPMSolver.__call__\<close> (its first three statements).\<close>

definition estimate_denoised_data :: "solver \<Rightarrow> tensor \<Rightarrow> tensor \<Rightarrow> int \<Rightarrow> error + tensor" where
  "estimate_denoised_data s x noise step =
     bind_err (tensor_item (timesteps s) step) (\<lambda>current_timestep.
     bind_err (tensor_index (cumulative_scale_factors s) (Idx0 current_timestep)) (\<lambda>scale_factor.
     bind_err (tensor_index (noise_std s) (Idx0 current_timestep)) (\<lambda>noise_ratio.
     bind_err (broadcast_op (*) noise_ratio noise) (\<lambda>m.
     bind_err (broadcast_op (-) x m) (\<lambda>d.
       broadcast_op (/) d scale_factor)))))"

text \<open>\<^verbatim>\<open>DPMSolver.__call__\<close>.  The solver is returned with the result, since an
  exception raised by an update leaves the history already extended.\<close>

definition DPMSolver_call :: "solver \<Rightarrow> tensor \<Rightarrow> tensor \<Rightarrow> int \<Rightarrow> solver \<times> (error + tensor)" where
  "DPMSolver_call s x noise step =
     (case estimate_denoised_data s x noise step of
        Inl e \<Rightarrow> (s, Inl e)
      | Inr estimated_denoised_data \<Rightarrow>
          let s1 = s\<lparr>estimated_data := deque_append 2 (estimated_data s) estimated_denoised_data\<rparr>
          in case (if initial_steps s1 = 0
                   then dpm_solver_first_order_update s1 x estimated_denoised_data step
                   else multistep_dpm_solver_second_order_update s1 x step) of
               Inl e \<Rightarrow> (s1, Inl e)
             | Inr denoised_x \<Rightarrow>
                 ((if initial_steps s1 < 2 then s1\<lparr>initial_steps := initial_steps s1 + 1\<rparr> else s1),
                  Inr denoised_x))"

text \<open>A sequence of calls on one solver: the solver after them, and their results.\<close>

fun run :: "solver \<Rightarrow> (tensor \<times> tensor \<times> int) list \<Rightarrow> solver \<times> (error + tensor) list" where
  "run s [] = (s, [])"
| "run s ((x, noise, step) # calls) =
     (let (s1, r) = DPMSolver_call s x noise step;
          (s2, rs) = run s1 calls
      in (s2, r # rs))"

section \<open>The formulas of the specification\<close>

text \<open>The specification gives the data estimate, the two updates and the noise
  injection as formulas on one element of the sample.  They are written here as the
  specification writes them, to be compared with what the code computes.\<close>

definition spec_data_estimate :: "real \<Rightarrow> real \<Rightarrow> real \<Rightarrow> real \<Rightarrow> real" where
  "spec_data_estimate noise_std_t cumulative_scale_factor_t x noise_prediction =
     (x - noise_std_t * noise_prediction) / cumulative_scale_factor_t"

definition spec_first_order :: "real \<Rightarrow> real \<Rightarrow> real \<Rightarrow> real \<Rightarrow> real \<Rightarrow> real \<Rightarrow> real \<Rightarrow> real" where
  "spec_first_order log_snr_prev log_snr_cur noise_std_prev noise_std_cur
       cumulative_scale_factor_prev x data_estimate =
     (let h = exp (- (log_snr_prev - log_snr_cur))
      in (noise_std_prev / noise_std_cur) * x
         - cumulative_scale_factor_prev * (h - 1) * data_estimate)"

definition spec_second_order ::
  "real \<Rightarrow> real \<Rightarrow> real \<Rightarrow> real \<Rightarrow> real \<Rightarrow> real \<Rightarrow> real \<Rightarrow> real \<Rightarrow> real \<Rightarrow> real" where
  "spec_second_order log_snr_prev log_snr_cur log_snr_next noise_std_prev noise_std_cur
       cumulative_scale_factor_prev x D_cur D_next =
     (let ratio = (log_snr_cur - log_snr_next) / (log_snr_prev - log_snr_cur);
          D_delta = (D_cur - D_next) / ratio;
          h = exp (- (log_snr_prev - log_snr_cur))
      in (noise_std_prev / noise_std_cur) * x
         - cumulative_scale_factor_prev * (h - 1) * D_cur
         - (1 / 2) * cumulative_scale_factor_prev * (h - 1) * D_delta)"

definition spec_add_noise :: "real \<Rightarrow> real \<Rightarrow> real \<Rightarrow> real \<Rightarrow> real" where
  "spec_add_noise cumulative_scale_factor_t noise_std_t x noise =
     cumulative_scale_factor_t * x + noise_std_t * noise"

section \<open>Auxiliary notions and example values\<close>

text \<open>A scheduler whose timesteps index its schedule arrays: the three arrays read
  by the solver have one length, and every timestep lies within it.  Every solver
  constructed with fewer inference steps than training timesteps is one.\<close>

definition schedule_ok :: "'a scheduler_scheme \<Rightarrow> bool" where
  "schedule_ok s =
     (length (cumulative_scale_factors s) = length (noise_std s) \<and>
      length (signal_to_noise_ratios s) = length (noise_std s) \<and>
      (\<forall>t \<in> set (timesteps s). 0 \<le> t \<and> t < int (length (noise_std s))))"

text \<open>A tensor of one element with \<open>k\<close> dimensions of size one: what indexing a
  schedule array gives (\<open>k = 0\<close> for a zero-dimensional index, \<open>k = 1\<close> for
  \<^verbatim>\<open>tensor([0])\<close>, \<open>k = 2\<close> after two \<^verbatim>\<open>unsqueeze\<close>).\<close>

definition single :: "nat \<Rightarrow> real \<Rightarrow> tensor" where
  "single k v = \<lparr>shape = replicate k 1, data = [v]\<rparr>"

text \<open>Sample \<open>i\<close> of \<^verbatim>\<open>numpy.linspace(0, n_train - 1, n_inference + 1)\<close>, for
  \<open>0 \<le> i \<le> n_inference\<close>.\<close>

definition linspace_sample :: "int \<Rightarrow> int \<Rightarrow> int \<Rightarrow> rat" where
  "linspace_sample n_train n_inference i =
     (if i < n_inference
      then binary64 (binary64 (of_int i
             * binary64 (of_int (n_train - 1) / of_int n_inference)) + 0)
      else of_int (n_train - 1))"

text \<open>A device constructor for the examples.  It follows the device strings of a
  recent release of the tensor library: a device type, or a device type, a colon
  and an index without leading zeros; the index of \<^verbatim>\<open>cpu\<close> is zero.  Every other
  string raises \<^verbatim>\<open>RuntimeError\<close>.\<close>

definition device_types :: "string list" where
  "device_types =
     [''cpu'', ''cuda'', ''ipu'', ''xpu'', ''mkldnn'', ''opengl'', ''opencl'', ''ideep'', ''hip'',
      ''ve'', ''fpga'', ''maia'', ''xla'', ''lazy'', ''vulkan'', ''mps'', ''meta'', ''hpu'', ''mtia'',
      ''privateuseone'']"

definition is_digit :: "char \<Rightarrow> bool" where
  "is_digit c = (48 \<le> (of_char c :: nat) \<and> (of_char c :: nat) \<le> 57)"

definition torch_device :: "string \<Rightarrow> error + device" where
  "torch_device s =
     (let name = takeWhile (\<lambda>c. c \<noteq> CHR '':'') s;
          rest = dropWhile (\<lambda>c. c \<noteq> CHR '':'') s
      in if name \<notin> set device_types then Inl RuntimeError
         else if rest = [] then Inr (TorchDevice name None)
         else
           let digits = tl rest;
               index = foldl (\<lambda>n c. 10 * n + ((of_char c :: nat) - 48)) 0 digits
           in if digits = [] \<or> \<not> list_all is_digit digits
                 \<or> (hd digits = CHR ''0'' \<and> tl digits \<noteq> [])
                 \<or> (name = ''cpu'' \<and> index \<noteq> 0)
              then Inl RuntimeError
              else Inr (TorchDevice name (Some index)))"

text \<open>Concrete inputs: a tensor of one dimension, a tensor of two dimensions, the
  solver \<^verbatim>\<open>DPMSolver(num_inference_steps=2, num_train_timesteps=3,
  initial_diffusion_rate=1/16, final_diffusion_rate=1/4)\<close>, whose timestep sequence
  is \<open>[2, 1]\<close>, and its two step calls in order.\<close>

definition tensor_2 :: tensor where
  "tensor_2 = \<lparr>shape = [2], data = [1, 2]\<rparr>"

definition tensor_1x2 :: tensor where
  "tensor_1x2 = \<lparr>shape = [1, 2], data = [1, 2]\<rparr>"

definition two_step_solver :: solver where
  "two_step_solver = projr (DPMSolver_init torch_device 2 3 (1 / 16) (1 / 4) ''cpu'')"

definition two_calls :: "(tensor \<times> tensor \<times> int) list" where
  "two_calls = [(tensor_1x2, tensor_1x2, 0), (tensor_1x2, tensor_1x2, 1)]"

text \<open>A sequence of four step calls on that solver: the first with a step outside
  the timestep sequence, then three valid ones.\<close>

definition four_calls :: "(tensor \<times> tensor \<times> int) list" where
  "four_calls =
     [(tensor_1x2, tensor_1x2, 5), (tensor_1x2, tensor_1x2, 0), (tensor_1x2, tensor_1x2, 1),
      (tensor_1x2, tensor_1x2, 1)]"

text \<open>The scheduler part of that solver, and the one of
  \<^verbatim>\<open>DPMSolver(1, 2, (1 - 2**-23)**2, (1 - 2**-24)**2)\<close>, with rates close to 1.\<close>

definition two_step_scheduler :: scheduler where
  "two_step_scheduler =
     projr (Scheduler_init torch_device generate_timesteps 2 3 (1 / 16) (1 / 4) ''cpu'' float32)"

definition saturated_scheduler :: scheduler where
  "saturated_scheduler =
     projr (Scheduler_init torch_device generate_timesteps 1 2 ((1 - 1 / 2 ^ 23) ^ 2)
              ((1 - 1 / 2 ^ 24) ^ 2) ''cpu'' float32)"

text \<open>A scheduler holding float32 values, the first of which (the float32 number
  nearest to \<open>1/10\<close>) is no float16 number.\<close>

definition stored_scheduler :: scheduler where
  "stored_scheduler =
     \<lparr>device = TorchDevice ''cpu'' None, dtype = float32,
      num_inference_steps = 1, num_train_timesteps = 1,
      initial_diffusion_rate = 1 / 16, final_diffusion_rate = 1 / 4,
      scale_factors = [13421773 / 2 ^ 27],
      cumulative_scale_factors = [1 / 4],
      noise_std = [3 / 4],
      signal_to_noise_ratios = [- 1],
      timesteps = [0]\<rparr>"

text \<open>\<open>w\<close> is a finite number of the dtype and no finite number of the dtype is
  nearer to \<open>v\<close>.\<close>

definition nearest_representable :: "dtype \<Rightarrow> real \<Rightarrow> real \<Rightarrow> bool" where
  "nearest_representable dt v w =
     (representable dt w \<and> (\<forall>z. representable dt z \<longrightarrow> \<bar>w - v\<bar> \<le> \<bar>z - v\<bar>))"

text \<open>All values of an array are within the finite range of the dtype.\<close>

definition finite_in :: "dtype \<Rightarrow> real list \<Rightarrow> bool" where
  "finite_in dt xs = (\<forall>v \<in> set xs. \<bar>v\<bar> \<le> largest dt)"

section \<open>Properties of the model\<close>

subsection \<open>Errors and indexing\<close>

text \<open>Binding an error, and the three outcomes of indexing a sequence.\<close>

lemma bind_err_Inr [simp]: "bind_err (Inr v) f = f v"
  by (simp add: bind_err_def)

lemma bind_err_Inl [simp]: "bind_err (Inl e) f = Inl e"
  by (simp add: bind_err_def)

lemma py_index_in_range:
  "0 \<le> i \<Longrightarrow> i < int (length xs) \<Longrightarrow> py_index xs i = Inr (xs ! nat i)"
  by (simp add: py_index_def)

lemma py_index_out_of_range:
  "int (length xs) \<le> i \<or> i < - int (length xs) \<Longrightarrow> py_index xs i = Inl IndexError"
  by (auto simp: py_index_def Let_def)

lemma py_index_wraps:
  "i < 0 \<Longrightarrow> - int (length xs) \<le> i \<Longrightarrow> py_index xs i = py_index xs (i + int (length xs))"
  by (simp add: py_index_def Let_def)

lemma py_index_last_two:
  "py_index [a, b] (- 1) = Inr b" "py_index [a, b] (- 2) = Inr a"
  by (simp_all add: py_index_def)

lemma unpack_long_fits: "- (2 ^ 63) \<le> i \<Longrightarrow> i < 2 ^ 63 \<Longrightarrow> unpack_long i = Inr i"
  by (simp add: unpack_long_def)

lemma unpack_long_overflow:
  "i < - (2 ^ 63) \<or> 2 ^ 63 \<le> i \<Longrightarrow> unpack_long i = Inl ValueError"
  by (auto simp: unpack_long_def)

lemma tensor_item_within:
  "- int (length xs) \<le> i \<Longrightarrow> i < int (length xs) \<Longrightarrow> tensor_item xs i = py_index xs i"
  by (simp add: tensor_item_def)

lemma tensor_item_in_range:
  "0 \<le> i \<Longrightarrow> i < int (length xs) \<Longrightarrow> tensor_item xs i = Inr (xs ! nat i)"
  by (simp add: tensor_item_def py_index_in_range)

lemma tensor_item_outside:
  "int (length xs) \<le> i \<or> i < - int (length xs) \<Longrightarrow>
   tensor_item xs i = Inl (if - (2 ^ 63) \<le> i \<and> i < 2 ^ 63 then IndexError else ValueError)"
  by (auto simp: tensor_item_def unpack_long_def py_index_out_of_range)

lemma tensor_item_wraps:
  "i < 0 \<Longrightarrow> - int (length xs) \<le> i \<Longrightarrow>
   tensor_item xs i = tensor_item xs (i + int (length xs))"
  by (simp add: tensor_item_def py_index_wraps)

lemma tensor_index_scalar:
  "0 \<le> t \<Longrightarrow> t < int (length arr) \<Longrightarrow>
   tensor_index arr (Idx0 t) = Inr (scalar_tensor (arr ! nat t))"
  by (simp add: py_index_in_range)

lemma tensor_index_zero_vector:
  "arr \<noteq> [] \<Longrightarrow> tensor_index arr (Idx1 [0]) = Inr \<lparr>shape = [1], data = [arr ! 0]\<rparr>"
  by (simp add: py_index_in_range)

declare tensor_index.simps [simp del]

subsection \<open>Broadcasting\<close>

text \<open>Two cases of broadcasting are needed: operands of one shape, and an operand with a
  single element whose dimensions are all one (a coefficient read from a schedule
  array) against any tensor of at least that rank.\<close>

lemma broadcast_dims_same: "broadcast_dims s s = Inr s"
  by (induction s) auto

lemma broadcast_dims_ones_left:
  "k \<le> length bs \<Longrightarrow> broadcast_dims (replicate k 1) bs = Inr bs"
proof (induction k arbitrary: bs)
  case 0
  then show ?case by simp
next
  case (Suc k)
  then obtain b bs' where "bs = b # bs'" by (cases bs) auto
  with Suc show ?case by auto
qed

lemma broadcast_dims_ones_right:
  "k \<le> length as \<Longrightarrow> broadcast_dims as (replicate k 1) = Inr as"
proof (induction k arbitrary: as)
  case 0
  then show ?case by (cases as) auto
next
  case (Suc k)
  then obtain a as' where "as = a # as'" by (cases as) auto
  with Suc show ?case by auto
qed

lemma broadcast_shapes_same: "broadcast_shapes s s = Inr s"
  by (simp add: broadcast_shapes_def broadcast_dims_same)

lemma broadcast_shapes_ones_left:
  "k \<le> length s \<Longrightarrow> broadcast_shapes (replicate k 1) s = Inr s"
  using broadcast_dims_ones_left [of k "rev s"] by (simp add: broadcast_shapes_def)

lemma broadcast_shapes_ones_right:
  "k \<le> length s \<Longrightarrow> broadcast_shapes s (replicate k 1) = Inr s"
  using broadcast_dims_ones_right [of k "rev s"] by (simp add: broadcast_shapes_def)

lemma concat_chunks:
  "length xs = d * n \<Longrightarrow> concat (map (\<lambda>i. take n (drop (i * n) xs)) [0..<d]) = xs"
proof (induction d arbitrary: xs)
  case 0
  then show ?case by simp
next
  case (Suc d)
  have len: "length (take (d * n) xs) = d * n" using Suc.prems by simp
  have "concat (map (\<lambda>i. take n (drop (i * n) xs)) [0..<d])
      = concat (map (\<lambda>i. take n (drop (i * n) (take (d * n) xs))) [0..<d])"
  proof -
    have "\<And>i. i < d \<Longrightarrow> take n (drop (i * n) xs) = take n (drop (i * n) (take (d * n) xs))"
    proof -
      fix i assume "i < d"
      then have "i * n + n \<le> d * n"
        by (metis Suc_leI mult_Suc mult_le_mono1 add.commute)
      then show "take n (drop (i * n) xs) = take n (drop (i * n) (take (d * n) xs))"
        by (simp add: drop_take min_def)
    qed
    then show ?thesis by (auto intro: arg_cong [where f = concat])
  qed
  also have "\<dots> = take (d * n) xs" using Suc.IH [OF len] .
  finally have "concat (map (\<lambda>i. take n (drop (i * n) xs)) [0..<Suc d])
      = take (d * n) xs @ take n (drop (d * n) xs)" by simp
  also have "\<dots> = xs" using Suc.prems by simp
  finally show ?case .
qed

lemma expand_same: "length xs = prod_list ds \<Longrightarrow> expand ds ds xs = xs"
proof (induction ds arbitrary: xs)
  case Nil
  then show ?case by simp
next
  case (Cons d ds)
  define n where "n = prod_list ds"
  have row: "expand ds ds (take n (drop (i * n) xs)) = take n (drop (i * n) xs)" if "i < d" for i
  proof -
    from that have "i * n + n \<le> d * n"
      by (metis Suc_leI mult_Suc mult_le_mono1 add.commute)
    then have "length (take n (drop (i * n) xs)) = prod_list ds"
      using Cons.prems by (simp add: n_def)
    then show ?thesis by (rule Cons.IH)
  qed
  have "expand (d # ds) (d # ds) xs
      = concat (map (\<lambda>i. expand ds ds (take n (drop (i * n) xs))) [0..<d])"
    by (simp add: Let_def n_def)
  also have "map (\<lambda>i. expand ds ds (take n (drop (i * n) xs))) [0..<d]
      = map (\<lambda>i. take n (drop (i * n) xs)) [0..<d]"
    by (rule map_cong) (auto simp: row)
  also have "concat (map (\<lambda>i. take n (drop (i * n) xs)) [0..<d]) = xs"
    using Cons.prems by (intro concat_chunks) (simp add: n_def)
  finally show ?case .
qed

lemma concat_replicate_replicate:
  "concat (replicate t (replicate n c)) = replicate (t * n) c"
  by (induction t) (simp_all add: replicate_add)

lemma prod_list_ones: "prod_list (replicate k (Suc 0)) = Suc 0"
  by (induction k) auto

lemma expand_ones:
  "expand (replicate (length ts) 1) ts [c] = replicate (prod_list ts) c"
proof (induction ts)
  case Nil
  then show ?case by simp
next
  case (Cons t ts)
  have "expand (1 # replicate (length ts) 1) (t # ts) [c]
      = (if 1 = t then expand (replicate (length ts) 1) ts [c]
         else concat (replicate t (expand (replicate (length ts) 1) ts [c])))"
    by (simp add: Let_def prod_list_ones)
  also have "\<dots> = replicate (prod_list (t # ts)) c"
    using Cons.IH by (auto simp: concat_replicate_replicate)
  finally show ?case by simp
qed

lemma map2_replicate_left:
  "length ys = n \<Longrightarrow> map2 f (replicate n c) ys = map (f c) ys"
  by (induction ys arbitrary: n) auto

lemma map2_replicate_right:
  "length xs = n \<Longrightarrow> map2 f xs (replicate n c) = map (\<lambda>v. f v c) xs"
  by (induction xs arbitrary: n) auto

lemma map2_nested:
  "map2 f xs (map2 g xs ys) = map2 (\<lambda>x y. f x (g x y)) xs ys"
proof (induction xs arbitrary: ys)
  case Nil
  then show ?case by simp
next
  case (Cons x xs)
  then show ?case by (cases ys) simp_all
qed

lemma broadcast_op_same_shape:
  assumes "wf_tensor a" "wf_tensor b" "shape b = shape a"
  shows "broadcast_op f a b = Inr \<lparr>shape = shape a, data = map2 f (data a) (data b)\<rparr>"
  using assms
  by (simp add: broadcast_op_def broadcast_shapes_same pad_shape_def expand_same wf_tensor_def)

lemma pad_shape_ones:
  "k \<le> r \<Longrightarrow> pad_shape r (replicate k 1) = replicate r 1"
  by (simp add: pad_shape_def replicate_add [symmetric] del: replicate_add)

lemma expand_own_shape:
  "wf_tensor t \<Longrightarrow> expand (pad_shape (length (shape t)) (shape t)) (shape t) (data t) = data t"
  by (simp add: pad_shape_def expand_same wf_tensor_def)

lemma broadcast_op_ones_left:
  assumes "shape a = replicate k 1" "data a = [c]" "k \<le> length (shape b)" "wf_tensor b"
  shows "broadcast_op f a b = Inr \<lparr>shape = shape b, data = map (f c) (data b)\<rparr>"
proof -
  have bs: "broadcast_shapes (shape a) (shape b) = Inr (shape b)"
    unfolding assms(1) using assms(3) by (rule broadcast_shapes_ones_left)
  have ea: "expand (pad_shape (length (shape b)) (shape a)) (shape b) (data a)
      = replicate (prod_list (shape b)) c"
    unfolding assms(1,2) pad_shape_ones [OF assms(3)] by (rule expand_ones)
  have eb: "expand (pad_shape (length (shape b)) (shape b)) (shape b) (data b) = data b"
    using assms(4) by (rule expand_own_shape)
  have "length (data b) = prod_list (shape b)"
    using assms(4) by (simp add: wf_tensor_def)
  then show ?thesis
    by (simp add: broadcast_op_def bs ea eb map2_replicate_left)
qed

lemma broadcast_op_ones_right:
  assumes "shape b = replicate k 1" "data b = [c]" "k \<le> length (shape a)" "wf_tensor a"
  shows "broadcast_op f a b = Inr \<lparr>shape = shape a, data = map (\<lambda>v. f v c) (data a)\<rparr>"
proof -
  have bs: "broadcast_shapes (shape a) (shape b) = Inr (shape a)"
    unfolding assms(1) using assms(3) by (rule broadcast_shapes_ones_right)
  have eb: "expand (pad_shape (length (shape a)) (shape b)) (shape a) (data b)
      = replicate (prod_list (shape a)) c"
    unfolding assms(1,2) pad_shape_ones [OF assms(3)] by (rule expand_ones)
  have ea: "expand (pad_shape (length (shape a)) (shape a)) (shape a) (data a) = data a"
    using assms(4) by (rule expand_own_shape)
  have "length (data a) = prod_list (shape a)"
    using assms(4) by (simp add: wf_tensor_def)
  then show ?thesis
    by (simp add: broadcast_op_def bs ea eb map2_replicate_right)
qed

lemma scalar_op_tensor:
  "wf_tensor b \<Longrightarrow> broadcast_op f (scalar_tensor c) b = Inr \<lparr>shape = shape b, data = map (f c) (data b)\<rparr>"
  using broadcast_op_ones_left [of "scalar_tensor c" 0 c b f] by (simp add: scalar_tensor_def)

lemma tensor_op_scalar:
  "wf_tensor a \<Longrightarrow> broadcast_op f a (scalar_tensor c) = Inr \<lparr>shape = shape a, data = map (\<lambda>v. f v c) (data a)\<rparr>"
  using broadcast_op_ones_right [of "scalar_tensor c" 0 c a f] by (simp add: scalar_tensor_def)

lemma wf_tensor_record [simp]:
  "wf_tensor \<lparr>shape = sh, data = xs\<rparr> \<longleftrightarrow> length xs = prod_list sh"
  by (simp add: wf_tensor_def)

lemma scalar_tensor_single: "scalar_tensor v = single 0 v"
  by (simp add: scalar_tensor_def single_def)

lemma tensor_map_single: "tensor_map f (single k v) = single k (f v)"
  by (simp add: tensor_map_def single_def)

lemma unsqueeze_last_single: "unsqueeze_last (single k v) = single (Suc k) v"
  by (simp add: unsqueeze_last_def single_def replicate_append_same)

lemma single_op_single:
  "broadcast_op f (single j a) (single k b) = Inr (single (max j k) (f a b))"
proof (cases "j \<le> k")
  case True
  then show ?thesis
    using broadcast_op_ones_left [of "single j a" j a "single k b" f]
    by (simp add: single_def max_def prod_list_ones)
next
  case False
  then show ?thesis
    using broadcast_op_ones_right [of "single k b" k b "single j a" f]
    by (simp add: single_def max_def prod_list_ones)
qed

lemma single_op_tensor:
  "wf_tensor b \<Longrightarrow> k \<le> length (shape b) \<Longrightarrow>
   broadcast_op f (single k a) b = Inr \<lparr>shape = shape b, data = map (f a) (data b)\<rparr>"
  using broadcast_op_ones_left [of "single k a" k a b f] by (simp add: single_def)

lemma tensor_op_single:
  "wf_tensor a \<Longrightarrow> k \<le> length (shape a) \<Longrightarrow>
   broadcast_op f a (single k b) = Inr \<lparr>shape = shape a, data = map (\<lambda>v. f v b) (data a)\<rparr>"
  using broadcast_op_ones_right [of "single k b" k b a f] by (simp add: single_def)

lemma tensor_op_tensor:
  "length xs = prod_list sh \<Longrightarrow> length ys = prod_list sh \<Longrightarrow>
   broadcast_op f \<lparr>shape = sh, data = xs\<rparr> \<lparr>shape = sh, data = ys\<rparr>
     = Inr \<lparr>shape = sh, data = map2 f xs ys\<rparr>"
  using broadcast_op_same_shape [of "\<lparr>shape = sh, data = xs\<rparr>" "\<lparr>shape = sh, data = ys\<rparr>" f]
  by simp

lemma tensor_index_single0:
  "0 \<le> t \<Longrightarrow> t < int (length arr) \<Longrightarrow> tensor_index arr (Idx0 t) = Inr (single 0 (arr ! nat t))"
  by (simp add: tensor_index_scalar scalar_tensor_single)

lemma tensor_index_single1:
  "arr \<noteq> [] \<Longrightarrow> tensor_index arr (Idx1 [0]) = Inr (single 1 (arr ! 0))"
  by (simp add: tensor_index_zero_vector single_def)

lemma wf_examples: "wf_tensor tensor_1x2" "wf_tensor tensor_2"
  by (simp_all add: tensor_1x2_def tensor_2_def wf_tensor_def)

subsection \<open>Rounding to binary64\<close>

text \<open>The rounding error is at most \<open>2^-53\<close> relative, and integers up to \<open>2^53\<close> are
  exact.\<close>

lemma pow2_powi: "pow2 e = 2 powi e"
  by (simp add: pow2_def power_int_def inverse_eq_divide power_inverse [symmetric] field_simps)

lemma pow2_pos [simp]: "0 < pow2 e"
  by (simp add: pow2_powi)

lemma pow2_add: "pow2 (a + b) = pow2 a * pow2 b"
  by (simp add: pow2_powi power_int_add)

lemma pow2_diff: "pow2 (a - b) = pow2 a / pow2 b"
  by (simp add: pow2_powi power_int_diff)

lemma pow2_le_imp_le: "pow2 a \<le> pow2 b \<Longrightarrow> 0 \<le> b \<Longrightarrow> a \<le> b"
  unfolding pow2_powi by (rule power_int_le_imp_le_exp [of 2]) simp_all

lemma pow2_nonzero [simp]: "pow2 e \<noteq> 0"
  using pow2_pos [of e] by linarith

lemma pow2_nat: "0 \<le> e \<Longrightarrow> pow2 e = 2 ^ nat e"
  by (simp add: pow2_def)

lemma exponent2_lower:
  assumes "q \<noteq> 0"
  shows "pow2 (exponent2 q) \<le> \<bar>q\<bar>"
proof -
  obtain n d where nd: "quotient_of \<bar>q\<bar> = (n, d)" by (cases "quotient_of \<bar>q\<bar>") auto
  have d: "0 < d" using nd by (rule quotient_of_denom_pos)
  have q: "\<bar>q\<bar> = of_int n / of_int d" using nd by (rule quotient_of_div)
  have "0 < \<bar>q\<bar>" using assms by simp
  then have n: "0 < n" using d by (simp add: q zero_less_divide_iff)
  define e where "e = bitlen n - bitlen d"
  show ?thesis
  proof (cases "pow2 e \<le> \<bar>q\<bar>")
    case True
    then show ?thesis by (simp add: exponent2_def nd e_def)
  next
    case False
    have bn: "1 \<le> bitlen n" "1 \<le> bitlen d"
      using n d by (auto simp: bitlen_alt_def)
    have "(2::int) ^ nat (bitlen n - 1) \<le> n" using bitlen_bounds [OF n] by simp
    then have "rat_of_int (2 ^ nat (bitlen n - 1)) \<le> of_int n" by (simp only: of_int_le_iff)
    then have 1: "pow2 (bitlen n - 1) \<le> of_int n" using bn by (simp add: pow2_nat)
    have "d < 2 ^ nat (bitlen d)" using bitlen_bounds [OF d] by simp
    then have "rat_of_int d \<le> of_int (2 ^ nat (bitlen d))" by (simp only: of_int_le_iff)
    then have 2: "of_int d \<le> pow2 (bitlen d)" using bn by (simp add: pow2_nat)
    have "pow2 (e - 1) = pow2 (bitlen n - 1) / pow2 (bitlen d)"
      by (simp add: e_def pow2_diff [symmetric] algebra_simps)
    also have "\<dots> \<le> of_int n / of_int d"
      using 1 2 d n by (intro frac_le) simp_all
    finally have "pow2 (e - 1) \<le> \<bar>q\<bar>" by (simp only: q)
    moreover have "exponent2 q = e - 1"
      using False by (simp add: exponent2_def nd e_def)
    ultimately show ?thesis by simp
  qed
qed

lemma round_half_even_error: "\<bar>of_int (round_half_even z) - z\<bar> \<le> 1 / 2"
proof -
  define f where "f = \<lfloor>z\<rfloor>"
  have f: "rat_of_int f \<le> z" "z < rat_of_int f + 1"
    unfolding f_def by linarith+
  consider "z - of_int f < 1 / 2" | "1 / 2 < z - of_int f" | "z - of_int f = 1 / 2"
    by linarith
  then show ?thesis
  proof cases
    case 1
    then have "round_half_even z = f" by (simp add: round_half_even_def f_def)
    then show ?thesis using f 1 by (simp add: abs_if)
  next
    case 2
    then have "round_half_even z = f + 1" by (simp add: round_half_even_def f_def)
    then show ?thesis using f 2 by (simp add: abs_if)
  next
    case 3
    then have "round_half_even z = f \<or> round_half_even z = f + 1"
      by (simp add: round_half_even_def f_def Let_def)
    then show ?thesis using f 3 by (auto simp: abs_if)
  qed
qed

lemma round_half_even_of_int [simp]: "round_half_even (of_int m) = m"
  by (simp add: round_half_even_def)

lemma round_half_even_less:
  assumes "a + 1 < b"
  shows "round_half_even a < round_half_even b"
proof -
  have "rat_of_int (round_half_even a) \<le> a + 1 / 2" "b - 1 / 2 \<le> of_int (round_half_even b)"
    using round_half_even_error [of a] round_half_even_error [of b] by linarith+
  then have "rat_of_int (round_half_even a) < of_int (round_half_even b)"
    using assms by linarith
  then show ?thesis by (simp only: of_int_less_iff)
qed

lemma binary64_error: "\<bar>binary64 q - q\<bar> \<le> \<bar>q\<bar> / 2 ^ 53"
proof (cases "q = 0")
  case True
  then show ?thesis by (simp add: binary64_def)
next
  case False
  define u where "u = pow2 (exponent2 q - 52)"
  have u: "0 < u" by (simp add: u_def)
  have "binary64 q - q = u * (of_int (round_half_even (q / u)) - q / u)"
    using False u by (simp add: binary64_def u_def [symmetric] Let_def algebra_simps)
  then have "\<bar>binary64 q - q\<bar> = u * \<bar>of_int (round_half_even (q / u)) - q / u\<bar>"
    using u by (simp add: abs_mult)
  also have "\<dots> \<le> u * (1 / 2)"
    using u round_half_even_error [of "q / u"] by (intro mult_left_mono) simp_all
  also have "\<dots> = pow2 (exponent2 q) / 2 ^ 53"
  proof -
    have "pow2 (exponent2 q - 52) = pow2 (exponent2 q) / pow2 52" by (rule pow2_diff)
    then show ?thesis by (simp add: u_def pow2_nat)
  qed
  also have "\<dots> \<le> \<bar>q\<bar> / 2 ^ 53"
    using exponent2_lower [OF False] by (simp add: divide_right_mono)
  finally show ?thesis .
qed

lemma binary64_relative:
  assumes "0 \<le> q"
  shows "\<bar>binary64 q - q\<bar> \<le> q / 2 ^ 53"
  using binary64_error [of q] assms by simp

lemma half_of_pow2_53:
  assumes "\<bar>rat_of_int k\<bar> = 2 ^ 53"
  shows "rat_of_int k / 2 = of_int (sgn k * 2 ^ 52)"
proof (cases "0 \<le> k")
  case True
  then have "rat_of_int k = 2 ^ 53" using assms by simp
  then have "rat_of_int k / 2 = 2 ^ 52" by simp
  moreover have "sgn k = 1" using True assms by (cases "k = 0") auto
  ultimately show ?thesis by simp
next
  case False
  then have "rat_of_int k = - (2 ^ 53)" using assms by simp
  then have "rat_of_int k / 2 = - (2 ^ 52)" by simp
  moreover have "sgn k = - 1" using False by simp
  ultimately show ?thesis by simp
qed

lemma binary64_of_int:
  assumes "\<bar>k\<bar> \<le> 2 ^ 53"
  shows "binary64 (of_int k) = of_int k"
proof (cases "k = 0")
  case True
  then show ?thesis by (simp add: binary64_def)
next
  case False
  define e where "e = exponent2 (of_int k)"
  define u where "u = pow2 (e - 52)"
  have k0: "rat_of_int k \<noteq> 0" using False by simp
  have lo: "pow2 e \<le> \<bar>of_int k\<bar>"
    unfolding e_def using k0 by (rule exponent2_lower)
  have "rat_of_int \<bar>k\<bar> \<le> rat_of_int (2 ^ 53)"
    using assms by (simp only: of_int_le_iff)
  then have hi: "\<bar>rat_of_int k\<bar> \<le> pow2 53" by (simp add: pow2_nat)
  have e53: "e \<le> 53"
    by (rule pow2_le_imp_le [of e 53]) (use lo hi in simp_all)
  have "\<exists>m. rat_of_int k / u = of_int m"
  proof (cases "e \<le> 52")
    case True
    have "pow2 (e - 52) * pow2 (52 - e) = 1"
      by (simp add: pow2_add [symmetric] pow2_def)
    then have "1 / u = pow2 (52 - e)"
      by (simp add: u_def divide_eq_eq mult.commute)
    also have "\<dots> = of_int (2 ^ nat (52 - e))" using True by (simp add: pow2_nat)
    finally have inv: "1 / u = of_int (2 ^ nat (52 - e))" .
    have "rat_of_int k / u = of_int k * (1 / u)" by simp
    also have "\<dots> = of_int k * of_int (2 ^ nat (52 - e))" by (simp only: inv)
    also have "\<dots> = of_int (k * 2 ^ nat (52 - e))" by (simp only: of_int_mult)
    finally show ?thesis by blast
  next
    case False
    then have e: "e = 53" using e53 by simp
    have "pow2 53 \<le> \<bar>rat_of_int k\<bar>" using lo by (simp only: e)
    then have "\<bar>rat_of_int k\<bar> = pow2 53" using hi by (rule antisym [rotated])
    then have k: "\<bar>rat_of_int k\<bar> = 2 ^ 53" by (simp add: pow2_nat)
    have "u = pow2 1" by (simp add: u_def e)
    then have "u = 2" by (simp add: pow2_nat)
    then have "rat_of_int k / u = of_int (sgn k * 2 ^ 52)"
      using half_of_pow2_53 [OF k] by simp
    then show ?thesis by blast
  qed
  then obtain m where m: "rat_of_int k / u = of_int m" by blast
  have "binary64 (of_int k) = of_int (round_half_even (of_int k / u)) * u"
    using k0 by (simp add: binary64_def e_def u_def Let_def)
  also have "\<dots> = of_int m * u" by (simp only: m round_half_even_of_int)
  also have "\<dots> = of_int k / u * u" by (simp only: m)
  also have "\<dots> = of_int k" by (simp add: u_def)
  finally show ?thesis .
qed

lemma binary64_zero [simp]: "binary64 0 = 0"
  by (simp add: binary64_def)

lemma binary64_nonzero:
  assumes "q \<noteq> 0"
  shows "binary64 q \<noteq> 0"
proof
  assume "binary64 q = 0"
  then have "\<bar>q\<bar> \<le> \<bar>q\<bar> / 2 ^ 53" using binary64_error [of q] by simp
  moreover have "\<bar>q\<bar> / 2 ^ 53 < \<bar>q\<bar>" using assms by simp
  ultimately show False by simp
qed

subsection \<open>The timestep sequence\<close>

text \<open>Length and failure of \<^verbatim>\<open>_generate_timesteps\<close>, the sequences of some concrete
  configurations, and the order of the samples when there are fewer inference steps
  than training timesteps.\<close>

lemma np_linspace_length:
  "0 \<le> num \<Longrightarrow> \<exists>ys. np_linspace start stop num = Inr ys \<and> length ys = nat num"
  by (auto simp: np_linspace_def Let_def)


lemma generate_timesteps_length:
  assumes "0 \<le> n"
  shows "\<exists>ts. generate_timesteps t n = Inr ts \<and> length ts = nat n"
proof -
  from assms obtain ys where ys: "np_linspace 0 (binary64 (of_int (t - 1))) (n + 1) = Inr ys"
    "length ys = nat (n + 1)"
    using np_linspace_length [of "n + 1"] by auto
  then show ?thesis using assms by (simp add: generate_timesteps_def)
qed




lemma timesteps_1000_30:
  "generate_timesteps 1000 30 =
     Inr [999, 966, 932, 899, 866, 832, 799, 766, 733, 699, 666, 633, 599, 566, 533,
          499, 466, 433, 400, 366, 333, 300, 266, 233, 200, 166, 133, 100, 67, 33]"
  by code_simp

lemma timesteps_2_3: "generate_timesteps 2 3 = Inr [1, 1, 0]"
  by code_simp

lemma timesteps_3_2: "generate_timesteps 3 2 = Inr [2, 1]"
  by code_simp

text \<open>The source's comment: \<^verbatim>\<open>numpy.linspace(0,999,31)[15]\<close> is
  \<open>499.49999999999994\<close>, just below the tie \<open>499.5\<close>, so timestep 499 is chosen where
  exact arithmetic would give 500.\<close>

lemma linspace_15: "binary64 (15 * binary64 (999 / 30)) = 999 / 2 - 1 / 2 ^ 44"
  by code_simp

lemma generate_timesteps_samples:
  assumes n: "1 \<le> n" and t: "\<bar>t - 1\<bar> \<le> 2 ^ 53" "t \<noteq> 1"
  shows "generate_timesteps t n =
     Inr (rev (map (\<lambda>i. round_half_even (linspace_sample t n i)) [1..n]))"
proof -
  define st where "st = binary64 (of_int (t - 1) / of_int n)"
  define f where "f = (\<lambda>v. binary64 (binary64 (v * st) + 0))"
  have stop: "binary64 (of_int (t - 1)) = of_int (t - 1)"
    using t(1) by (rule binary64_of_int)
  have "rat_of_int (t - 1) / of_int n \<noteq> 0" using n t(2) by simp
  then have st0: "st \<noteq> 0" unfolding st_def by (rule binary64_nonzero)
  have stop': "binary64 (rat_of_int t - 1) = rat_of_int t - 1"
    using stop by simp
  have st': "binary64 ((rat_of_int t - 1) / rat_of_int n) = st"
    by (simp add: st_def)
  have up: "[0..n] = [0..n - 1] @ [n]" using n by (simp add: upto_rec2)
  have "np_linspace 0 (of_int (t - 1)) (n + 1)
      = Inr (butlast (map f (map rat_of_int [0..n])) @ [of_int (t - 1)])"
    using n st0
    by (simp add: np_linspace_def Let_def stop' st' f_def comp_def)
  also have "butlast (map f (map rat_of_int [0..n])) = map (\<lambda>i. f (of_int i)) [0..n - 1]"
    by (simp add: up butlast_append comp_def)
  also have "map (\<lambda>i. f (of_int i)) [0..n - 1] = map (linspace_sample t n) [0..n - 1]"
    by (rule map_cong) (auto simp: linspace_sample_def f_def st_def)
  also have "map (linspace_sample t n) [0..n - 1] @ [of_int (t - 1)]
      = map (linspace_sample t n) [0..n]"
    by (simp add: up linspace_sample_def)
  finally have ls: "np_linspace 0 (of_int (t - 1)) (n + 1) = Inr (map (linspace_sample t n) [0..n])" .
  have "[0..n] = 0 # [1..n]" using n by (simp add: upto_rec1)
  then show ?thesis
    using ls by (simp add: generate_timesteps_def stop' comp_def)
qed

lemma linspace_sample_error:
  assumes n: "1 \<le> n" "n < t" and i: "0 \<le> i" "i \<le> n"
  shows "\<bar>linspace_sample t n i - of_int i * (of_int (t - 1) / of_int n)\<bar>
           \<le> 4 * (of_int i * (of_int (t - 1) / of_int n)) / 2 ^ 53"
proof (cases "i < n")
  case False
  then have "i = n" using i by simp
  then show ?thesis using n by (simp add: linspace_sample_def)
next
  case True
  define s where "s = rat_of_int (t - 1) / of_int n"
  define st where "st = binary64 s"
  define k where "k = rat_of_int i"
  define P where "P = k * s"
  define B where "B = k * st"
  define a where "a = binary64 B"
  define w where "w = binary64 (a + 0)"
  have s: "0 \<le> s" using n by (simp add: s_def)
  have k: "0 \<le> k" using i by (simp add: k_def)
  have P: "0 \<le> P" using s k by (simp add: P_def)
  have "\<bar>st - s\<bar> \<le> s / 2 ^ 53"
    unfolding st_def using s by (rule binary64_relative)
  then have "k * \<bar>st - s\<bar> \<le> k * (s / 2 ^ 53)"
    using k by (rule mult_left_mono)
  moreover have "\<bar>B - P\<bar> = k * \<bar>st - s\<bar>"
    unfolding B_def P_def right_diff_distrib [symmetric] abs_mult using k by simp
  ultimately have BP: "\<bar>B - P\<bar> \<le> P / 9007199254740992"
    by (simp add: P_def)
  then have B: "0 \<le> B" using P by linarith
  have aB: "\<bar>a - B\<bar> \<le> B / 9007199254740992"
    unfolding a_def using binary64_relative [OF B] by simp
  have wa: "\<bar>w - a\<bar> \<le> \<bar>a\<bar> / 9007199254740992"
    unfolding w_def using binary64_error [of a] by simp
  have "\<bar>w - P\<bar> \<le> 4 * P / 9007199254740992"
    using BP aB wa P B by linarith
  then have "\<bar>w - P\<bar> \<le> 4 * P / 2 ^ 53" by simp
  moreover have "linspace_sample t n i = w"
    using True by (simp add: linspace_sample_def w_def a_def B_def k_def st_def s_def)
  ultimately show ?thesis
    by (simp add: P_def k_def s_def)
qed

lemma linspace_sample_exact:
  assumes n: "1 \<le> n" "n \<le> 2 ^ 53" and i: "0 \<le> i" "i \<le> n"
  shows "linspace_sample (n + 1) n i = of_int i"
proof (cases "i < n")
  case False
  then show ?thesis using i by (simp add: linspace_sample_def)
next
  case True
  have one: "binary64 1 = 1" using binary64_of_int [of 1] by simp
  have "\<bar>i\<bar> \<le> 2 ^ 53" using i n by simp
  then have "binary64 (of_int i) = of_int i" by (rule binary64_of_int)
  then show ?thesis using True n by (simp add: linspace_sample_def one)
qed

lemma spacing_above_one:
  fixes M N :: rat
  assumes "1 \<le> N" "N \<le> 2 ^ 24" "N + 1 \<le> M"
  shows "1 < M / N - 8 * M / 2 ^ 53"
proof -
  have "N * (N + 1) \<le> 2 ^ 24 * (2 ^ 24 + 1)"
    using assms(1,2) by (intro mult_mono) simp_all
  then have Q: "8 * (N * (N + 1)) / 2 ^ 53 < 1" by simp
  have c: "0 \<le> 1 - 8 * N / 2 ^ 53" using assms(2) by simp
  have "N < N + 1 - 8 * (N * (N + 1)) / 2 ^ 53" using Q by simp
  also have "\<dots> = (N + 1) * (1 - 8 * N / 2 ^ 53)" by (simp add: algebra_simps)
  also have "\<dots> \<le> M * (1 - 8 * N / 2 ^ 53)"
    using assms(3) c by (rule mult_right_mono)
  finally have "N < M * (1 - 8 * N / 2 ^ 53)" .
  then have "1 < M * (1 - 8 * N / 2 ^ 53) / N"
    using assms(1) by (simp add: less_divide_eq)
  also have "M * (1 - 8 * N / 2 ^ 53) / N = M / N - 8 * M / 2 ^ 53"
    using assms(1) by (simp add: field_simps)
  finally show ?thesis .
qed

lemma linspace_sample_gap:
  assumes n: "1 \<le> n" "n \<le> 2 ^ 24" "n + 1 < t" and ij: "0 \<le> i" "i < j" "j \<le> n"
  shows "linspace_sample t n i + 1 < linspace_sample t n j"
proof -
  define s where "s = rat_of_int (t - 1) / of_int n"
  define Pi where "Pi = rat_of_int i * s"
  define Pj where "Pj = rat_of_int j * s"
  define M where "M = rat_of_int (t - 1)"
  have s: "0 \<le> s" using n by (simp add: s_def)
  have nt: "n < t" using n by simp
  have ei: "\<bar>linspace_sample t n i - Pi\<bar> \<le> 4 * Pi / 9007199254740992"
    using linspace_sample_error [OF n(1) nt, of i] ij by (simp add: Pi_def s_def)
  have ej: "\<bar>linspace_sample t n j - Pj\<bar> \<le> 4 * Pj / 9007199254740992"
    using linspace_sample_error [OF n(1) nt, of j] ij by (simp add: Pj_def s_def)
  have ns: "rat_of_int n * s = M" using n by (simp add: s_def M_def)
  have "rat_of_int j * s \<le> rat_of_int n * s"
    using ij s by (intro mult_right_mono) simp_all
  then have Pj: "Pj \<le> M" by (simp add: Pj_def ns)
  have "rat_of_int i * s \<le> rat_of_int n * s"
    using ij s by (intro mult_right_mono) simp_all
  then have Pi: "Pi \<le> M" by (simp add: Pi_def ns)
  have "1 \<le> rat_of_int (j - i)" using ij by simp
  then have "1 * s \<le> rat_of_int (j - i) * s"
    using s by (rule mult_right_mono)
  then have d: "s \<le> Pj - Pi" by (simp add: Pj_def Pi_def algebra_simps)
  have "rat_of_int n + 1 \<le> M"
  proof -
    have "n + 1 \<le> t - 1" using n by simp
    then have "rat_of_int (n + 1) \<le> rat_of_int (t - 1)" by (simp only: of_int_le_iff)
    then show ?thesis by (simp add: M_def)
  qed
  moreover have "1 \<le> rat_of_int n" "rat_of_int n \<le> 2 ^ 24"
  proof -
    show "1 \<le> rat_of_int n" using n by simp
    have "rat_of_int n \<le> rat_of_int (2 ^ 24)" using n(2) by (simp only: of_int_le_iff)
    then show "rat_of_int n \<le> 2 ^ 24" by simp
  qed
  ultimately have "1 < M / rat_of_int n - 8 * M / 2 ^ 53"
    by (intro spacing_above_one)
  then have sp: "1 < s - 8 * M / 9007199254740992"
    by (simp add: s_def M_def)
  show ?thesis
    using ei ej Pi Pj d sp by linarith
qed

lemma round_half_even_samples_increasing:
  assumes n: "1 \<le> n" "n \<le> 2 ^ 24" "n < t" and ij: "0 \<le> i" "i < j" "j \<le> n"
  shows "round_half_even (linspace_sample t n i) < round_half_even (linspace_sample t n j)"
proof (cases "t = n + 1")
  case True
  have "n \<le> 2 ^ 53" using n(2) by simp
  then have "linspace_sample t n i = of_int i" "linspace_sample t n j = of_int j"
    using linspace_sample_exact [of n] n ij True by simp_all
  then show ?thesis using ij by simp
next
  case False
  then have "n + 1 < t" using n by simp
  then show ?thesis
    using n ij by (intro round_half_even_less linspace_sample_gap)
qed

lemma generate_timesteps_descending:
  assumes n: "1 \<le> n" "n \<le> 2 ^ 24" "n < t" and t: "t \<le> 2 ^ 53"
  shows "\<exists>ts. generate_timesteps t n = Inr ts \<and> length ts = nat n
           \<and> sorted_wrt (>) ts \<and> hd ts = t - 1
           \<and> (\<forall>x \<in> set ts. 1 \<le> x \<and> x \<le> t - 1)"
proof -
  define h where "h = (\<lambda>i. round_half_even (linspace_sample t n i))"
  define ts where "ts = rev (map h [1..n])"
  have mono: "h i < h j" if "0 \<le> i" "i < j" "j \<le> n" for i j
    unfolding h_def using n that by (intro round_half_even_samples_increasing)
  have h0: "h 0 = 0"
    using n round_half_even_of_int [of 0] by (simp add: h_def linspace_sample_def)
  have hn: "h n = t - 1"
    using round_half_even_of_int [of "t - 1"] by (simp add: h_def linspace_sample_def)
  have "\<bar>t - 1\<bar> \<le> 2 ^ 53" "t \<noteq> 1" using n t by simp_all
  then have gen: "generate_timesteps t n = Inr ts"
    unfolding ts_def h_def using n(1) by (intro generate_timesteps_samples)
  have len: "length ts = nat n" using n by (simp add: ts_def)
  have "sorted_wrt (\<lambda>i j. h i < h j) [1..n]"
  proof (rule sorted_wrt_mono_rel [of _ "(<)"])
    show "sorted_wrt (<) [1..n]" by simp
    show "h i < h j" if "i \<in> set [1..n]" "j \<in> set [1..n]" "i < j" for i j
      using that by (intro mono) simp_all
  qed
  then have sorted: "sorted_wrt (>) ts"
    by (simp add: ts_def sorted_wrt_rev sorted_wrt_map)
  have up: "[1..n] = [1..n - 1] @ [n]" using n by (simp add: upto_rec2)
  have "hd ts = last (map h [1..n])" using n by (simp add: ts_def hd_rev)
  also have "\<dots> = h n" by (subst up) simp
  finally have hd: "hd ts = t - 1" by (simp add: hn)
  have range: "1 \<le> x \<and> x \<le> t - 1" if "x \<in> set ts" for x
  proof -
    from that obtain i where i: "1 \<le> i" "i \<le> n" "x = h i" by (auto simp: ts_def)
    have "h 0 < h i" using i by (intro mono) simp_all
    moreover have "h i \<le> h n"
      using i mono [of i n] by (cases "i = n") simp_all
    ultimately show ?thesis using h0 hn i(3) by simp
  qed
  show ?thesis using gen len sorted hd range by blast
qed

subsection \<open>Rounding to a floating-point format\<close>

text \<open>The rounded value is a number of the format and none of the format is nearer;
  numbers of the format are not changed; rounding is monotone.\<close>

lemma round_to_even_cases:
  "(round_to_even y = \<lfloor>y\<rfloor> \<and> y - of_int \<lfloor>y\<rfloor> \<le> 1 / 2)
   \<or> (round_to_even y = \<lfloor>y\<rfloor> + 1 \<and> 1 / 2 \<le> y - of_int \<lfloor>y\<rfloor>)"
  by (auto simp: round_to_even_def Let_def)

lemma round_to_even_error: "\<bar>of_int (round_to_even y) - y\<bar> \<le> 1 / 2"
proof -
  have f: "of_int \<lfloor>y\<rfloor> \<le> y" "y < of_int \<lfloor>y\<rfloor> + 1" by linarith+
  from round_to_even_cases [of y] show ?thesis
  proof
    assume a: "round_to_even y = \<lfloor>y\<rfloor> \<and> y - of_int \<lfloor>y\<rfloor> \<le> 1 / 2"
    then have "of_int (round_to_even y) = (of_int \<lfloor>y\<rfloor> :: real)" by simp
    then show ?thesis using f a by linarith
  next
    assume a: "round_to_even y = \<lfloor>y\<rfloor> + 1 \<and> 1 / 2 \<le> y - of_int \<lfloor>y\<rfloor>"
    then have "of_int (round_to_even y) = (of_int \<lfloor>y\<rfloor> + 1 :: real)" by simp
    then show ?thesis using f a by linarith
  qed
qed

lemma round_to_even_of_int [simp]: "round_to_even (of_int m) = m"
  by (simp add: round_to_even_def)

lemma round_to_even_nearest: "\<bar>of_int (round_to_even y) - y\<bar> \<le> \<bar>of_int n - y\<bar>"
proof (cases "n \<le> \<lfloor>y\<rfloor>")
  case True
  then have "real_of_int n \<le> of_int \<lfloor>y\<rfloor>" by (simp only: of_int_le_iff)
  moreover have "of_int \<lfloor>y\<rfloor> \<le> y" by linarith
  ultimately have n: "\<bar>of_int n - y\<bar> = y - of_int n" "y - of_int \<lfloor>y\<rfloor> \<le> y - of_int n" by linarith+
  from round_to_even_cases [of y] show ?thesis
  proof
    assume a: "round_to_even y = \<lfloor>y\<rfloor> \<and> y - of_int \<lfloor>y\<rfloor> \<le> 1 / 2"
    then have "of_int (round_to_even y) = (of_int \<lfloor>y\<rfloor> :: real)" by simp
    then show ?thesis using n by linarith
  next
    assume a: "round_to_even y = \<lfloor>y\<rfloor> + 1 \<and> 1 / 2 \<le> y - of_int \<lfloor>y\<rfloor>"
    then have "of_int (round_to_even y) = (of_int \<lfloor>y\<rfloor> + 1 :: real)" by simp
    moreover have "y < of_int \<lfloor>y\<rfloor> + 1" by linarith
    ultimately show ?thesis using n a by linarith
  qed
next
  case False
  then have "\<lfloor>y\<rfloor> + 1 \<le> n" by simp
  then have "real_of_int (\<lfloor>y\<rfloor> + 1) \<le> of_int n" by (simp only: of_int_le_iff)
  then have "of_int \<lfloor>y\<rfloor> + 1 \<le> real_of_int n" by simp
  moreover have "y < of_int \<lfloor>y\<rfloor> + 1" by linarith
  ultimately have n: "\<bar>of_int n - y\<bar> = of_int n - y" "of_int \<lfloor>y\<rfloor> + 1 - y \<le> of_int n - y" by linarith+
  from round_to_even_cases [of y] show ?thesis
  proof
    assume a: "round_to_even y = \<lfloor>y\<rfloor> \<and> y - of_int \<lfloor>y\<rfloor> \<le> 1 / 2"
    then have "of_int (round_to_even y) = (of_int \<lfloor>y\<rfloor> :: real)" by simp
    moreover have "of_int \<lfloor>y\<rfloor> \<le> y" by linarith
    ultimately show ?thesis using n a by linarith
  next
    assume a: "round_to_even y = \<lfloor>y\<rfloor> + 1 \<and> 1 / 2 \<le> y - of_int \<lfloor>y\<rfloor>"
    then have "of_int (round_to_even y) = (of_int \<lfloor>y\<rfloor> + 1 :: real)" by simp
    then show ?thesis using n by linarith
  qed
qed

lemma powr_two_int: "2 powr real_of_int e = 2 powi e" "2 powr (real_of_int e + 1) = 2 powi (e + 1)"
proof -
  show "2 powr real_of_int e = 2 powi e" by (simp add: powr_real_of_int')
  have "2 powr real_of_int (e + 1) = 2 powi (e + 1)" by (rule powr_real_of_int') simp_all
  then show "2 powr (real_of_int e + 1) = 2 powi (e + 1)" by simp
qed

lemma exponent_bounds:
  assumes "x \<noteq> 0"
  shows "2 powi \<lfloor>log 2 \<bar>x\<bar>\<rfloor> \<le> \<bar>x\<bar>" "\<bar>x\<bar> < 2 powi (\<lfloor>log 2 \<bar>x\<bar>\<rfloor> + 1)"
proof -
  have pos: "0 < \<bar>x\<bar>" using assms by simp
  have "2 powr real_of_int \<lfloor>log 2 \<bar>x\<bar>\<rfloor> \<le> \<bar>x\<bar> \<and> \<bar>x\<bar> < 2 powr (real_of_int \<lfloor>log 2 \<bar>x\<bar>\<rfloor> + 1)"
    using floor_log_eq_powr_iff [OF pos, of 2 "\<lfloor>log 2 \<bar>x\<bar>\<rfloor>"] by simp
  then show "2 powi \<lfloor>log 2 \<bar>x\<bar>\<rfloor> \<le> \<bar>x\<bar>" "\<bar>x\<bar> < 2 powi (\<lfloor>log 2 \<bar>x\<bar>\<rfloor> + 1)"
    by (simp_all only: powr_two_int)
qed

lemma exponent_eq:
  assumes "2 powi e \<le> \<bar>x\<bar>" "\<bar>x\<bar> < 2 powi (e + 1)"
  shows "\<lfloor>log 2 \<bar>x\<bar>\<rfloor> = e"
proof -
  have "0 < (2::real) powi e" by simp
  then have pos: "0 < \<bar>x\<bar>" using assms(1) by linarith
  have "2 powr real_of_int e \<le> \<bar>x\<bar> \<and> \<bar>x\<bar> < 2 powr (real_of_int e + 1)"
    using assms by (simp only: powr_two_int)
  then show ?thesis
    using floor_log_eq_powr_iff [OF pos, of 2 e] by simp
qed


lemma powi_nonneg_of_int: "0 \<le> d \<Longrightarrow> (2::real) powi d = of_int (2 ^ nat d)"
  by (simp add: power_int_def)

lemma powi_split: "(2::real) powi a = 2 powi (a - b) * 2 powi b"
  by (simp add: power_int_add [symmetric])

lemma float_round_zero [simp]: "float_round p emin 0 = 0"
  by (simp add: float_round_def)

lemma float_round_unfold:
  assumes "x \<noteq> 0"
  shows "float_round p emin x =
     of_int (round_to_even (x / 2 powi (max \<lfloor>log 2 \<bar>x\<bar>\<rfloor> emin - int p + 1)))
       * 2 powi (max \<lfloor>log 2 \<bar>x\<bar>\<rfloor> emin - int p + 1)"
  using assms by (simp add: float_round_def Let_def)

lemma scaled_nearest:
  assumes "0 < u"
  shows "\<bar>of_int (round_to_even (x / u)) * u - x\<bar> \<le> \<bar>of_int n * u - x\<bar>"
proof -
  have "of_int (round_to_even (x / u)) * u - x = u * (of_int (round_to_even (x / u)) - x / u)"
    using assms by (simp add: algebra_simps)
  then have 1: "\<bar>of_int (round_to_even (x / u)) * u - x\<bar>
      = u * \<bar>of_int (round_to_even (x / u)) - x / u\<bar>"
    using assms by (simp add: abs_mult)
  have "of_int n * u - x = u * (of_int n - x / u)"
    using assms by (simp add: algebra_simps)
  then have 2: "\<bar>of_int n * u - x\<bar> = u * \<bar>of_int n - x / u\<bar>"
    using assms by (simp add: abs_mult)
  show ?thesis
    unfolding 1 2 using assms round_to_even_nearest [of "x / u" n]
    by (intro mult_left_mono) simp_all
qed

lemma float_round_nearest:
  assumes z: "in_format p emin z" and p: "0 < p"
  shows "\<bar>float_round p emin x - x\<bar> \<le> \<bar>z - x\<bar>"
proof (cases "x = 0")
  case True
  then show ?thesis by simp
next
  case False
  define e where "e = max \<lfloor>log 2 \<bar>x\<bar>\<rfloor> emin"
  define j where "j = e - int p + 1"
  define u :: real where "u = 2 powi j"
  have u: "0 < u" by (simp add: u_def)
  have fl: "float_round p emin x = of_int (round_to_even (x / u)) * u"
    using False by (simp add: float_round_unfold u_def j_def e_def)
  obtain m k where mk: "z = of_int m * 2 powi k" "\<bar>m\<bar> < 2 ^ p" "emin - int p + 1 \<le> k"
    using z by (auto simp: in_format_def)
  show ?thesis
  proof (cases "j \<le> k")
    case True
    have "(2::real) powi k = 2 powi (k - j) * u" unfolding u_def by (rule powi_split)
    also have "\<dots> = of_int (2 ^ nat (k - j)) * u"
      using True by (simp only: powi_nonneg_of_int [of "k - j"] diff_ge_0_iff_ge)
    finally have "z = of_int (m * 2 ^ nat (k - j)) * u"
      by (simp add: mk(1))
    then show ?thesis
      unfolding fl using scaled_nearest [OF u, of x "m * 2 ^ nat (k - j)"] by simp
  next
    case False
    then have kj: "k < j" by simp
    then have "emin < e" using mk(3) by (simp add: j_def)
    then have e: "e = \<lfloor>log 2 \<bar>x\<bar>\<rfloor>" by (simp add: e_def max_def split: if_splits)
    have lo: "2 powi e \<le> \<bar>x\<bar>" unfolding e using \<open>x \<noteq> 0\<close> by (rule exponent_bounds)
    have "real_of_int \<bar>m\<bar> < of_int (2 ^ p)" using mk(2) by (simp only: of_int_less_iff)
    then have m: "\<bar>real_of_int m\<bar> < 2 powi int p" by simp
    have "\<bar>z\<bar> = \<bar>real_of_int m\<bar> * 2 powi k" by (simp add: mk(1) abs_mult)
    also have "\<dots> < 2 powi int p * 2 powi k"
      using m by (intro mult_strict_right_mono) simp_all
    also have "\<dots> = 2 powi (int p + k)" by (simp add: power_int_add)
    also have "\<dots> \<le> 2 powi e"
      using kj by (intro power_int_increasing) (simp_all add: j_def)
    finally have zlt: "\<bar>z\<bar> < 2 powi e" .
    define s :: int where "s = (if 0 < x then 1 else - 1)"
    have "(2::real) powi e = 2 powi (e - j) * u" unfolding u_def by (rule powi_split)
    also have "e - j = int p - 1" by (simp add: j_def)
    also have "(2::real) powi (int p - 1) = of_int (2 ^ nat (int p - 1))"
      using p by (intro powi_nonneg_of_int) simp
    finally have pe: "(2::real) powi e = of_int (2 ^ nat (int p - 1)) * u" .
    have se: "of_int (s * 2 ^ nat (int p - 1)) * u = of_int s * 2 powi e"
      by (simp add: pe)
    have "\<bar>float_round p emin x - x\<bar> \<le> \<bar>of_int (s * 2 ^ nat (int p - 1)) * u - x\<bar>"
      unfolding fl by (rule scaled_nearest [OF u])
    also have "\<dots> = \<bar>of_int s * 2 powi e - x\<bar>" by (simp only: se)
    also have "\<dots> = \<bar>x\<bar> - 2 powi e"
      using lo \<open>x \<noteq> 0\<close> by (auto simp: s_def abs_if)
    also have "\<dots> \<le> \<bar>x\<bar> - \<bar>z\<bar>" using zlt by simp
    also have "\<dots> \<le> \<bar>z - x\<bar>" by (simp add: abs_if)
    finally show ?thesis .
  qed
qed


lemma in_format_zero [simp]: "in_format p emin 0"
  unfolding in_format_def by (rule exI [of _ 0], rule exI [of _ "emin - int p + 1"]) simp

lemma float_round_in_format:
  assumes p: "0 < p"
  shows "in_format p emin (float_round p emin x)"
proof (cases "x = 0")
  case True
  then show ?thesis by simp
next
  case False
  define e0 where "e0 = \<lfloor>log 2 \<bar>x\<bar>\<rfloor>"
  define e where "e = max e0 emin"
  define j where "j = e - int p + 1"
  define u :: real where "u = 2 powi j"
  define n where "n = round_to_even (x / u)"
  have u: "0 < u" by (simp add: u_def)
  have fl: "float_round p emin x = of_int n * u"
    using False by (simp add: float_round_unfold u_def j_def e_def e0_def n_def)
  have "\<bar>x\<bar> < 2 powi (e0 + 1)" unfolding e0_def using False by (rule exponent_bounds)
  also have "\<dots> \<le> 2 powi (int p + j)"
    by (intro power_int_increasing) (simp_all add: j_def e_def)
  also have "\<dots> = 2 ^ p * u" by (simp add: u_def power_int_add)
  finally have "\<bar>x\<bar> / u < 2 ^ p" using u by (simp add: divide_less_eq)
  then have y: "\<bar>x / u\<bar> < 2 ^ p" using u by (simp add: abs_divide)
  have "\<bar>real_of_int n\<bar> \<le> \<bar>x / u\<bar> + 1 / 2"
    using round_to_even_error [of "x / u"] unfolding n_def by linarith
  then have "\<bar>real_of_int n\<bar> < of_int (2 ^ p) + 1 / 2" using y by simp
  then have "real_of_int \<bar>n\<bar> < of_int (2 ^ p + 1)" by simp
  then have "\<bar>n\<bar> < 2 ^ p + 1" by (simp only: of_int_less_iff)
  then have n: "\<bar>n\<bar> \<le> 2 ^ p" by simp
  show ?thesis
  proof (cases "\<bar>n\<bar> < 2 ^ p")
    case True
    show ?thesis unfolding in_format_def
    proof (intro exI conjI)
      show "float_round p emin x = of_int n * 2 powi j" by (simp add: fl u_def)
      show "\<bar>n\<bar> < 2 ^ p" by (rule True)
      show "emin - int p + 1 \<le> j" by (simp add: j_def e_def)
    qed
  next
    case False
    then have eq: "\<bar>n\<bar> = 2 ^ p" using n by simp
    define m :: int where "m = sgn n * 2 ^ (p - 1)"
    have "n = sgn n * \<bar>n\<bar>" by (simp add: sgn_mult_abs)
    also have "\<dots> = sgn n * 2 ^ p" by (simp only: eq)
    also have "(2::int) ^ p = 2 ^ (p - 1) * 2" using p by (cases p) simp_all
    finally have nm: "n = m * 2" by (simp add: m_def)
    have "n \<noteq> 0" using eq by auto
    then have "\<bar>sgn n\<bar> = 1" by (simp add: abs_sgn_eq)
    then have "\<bar>m\<bar> = 2 ^ (p - 1)" by (simp add: m_def abs_mult)
    moreover have "(2::int) ^ (p - 1) < 2 ^ p" using p by (intro power_strict_increasing) simp_all
    ultimately have m: "\<bar>m\<bar> < 2 ^ p" by simp
    have "(2::real) powi (j + 1) = 2 * 2 powi j" by (simp add: power_int_add)
    then have "of_int n * u = of_int m * 2 powi (j + 1)" by (simp add: nm u_def)
    then show ?thesis unfolding in_format_def fl
      using m by (intro exI [of _ m] exI [of _ "j + 1"]) (simp add: j_def e_def)
  qed
qed

lemma float_round_exact:
  assumes "in_format p emin z" "0 < p"
  shows "float_round p emin z = z"
  using float_round_nearest [OF assms, of z] by simp

lemma float_round_idem:
  "0 < p \<Longrightarrow> float_round p emin (float_round p emin x) = float_round p emin x"
  by (simp add: float_round_exact float_round_in_format)

lemma float_round_mono:
  assumes p: "0 < p" and xy: "x \<le> y"
  shows "float_round p emin x \<le> float_round p emin y"
proof (rule ccontr)
  assume "\<not> float_round p emin x \<le> float_round p emin y"
  then have lt: "float_round p emin y < float_round p emin x" by simp
  have 1: "\<bar>float_round p emin x - x\<bar> \<le> \<bar>float_round p emin y - x\<bar>"
    by (rule float_round_nearest [OF float_round_in_format [OF p] p])
  have 2: "\<bar>float_round p emin y - y\<bar> \<le> \<bar>float_round p emin x - y\<bar>"
    by (rule float_round_nearest [OF float_round_in_format [OF p] p])
  have "x = y" using 1 2 lt xy by linarith
  then show False using lt by simp
qed

lemma float_round_error:
  assumes "x \<noteq> 0"
  shows "\<bar>float_round p emin x - x\<bar> \<le> 2 powi (max \<lfloor>log 2 \<bar>x\<bar>\<rfloor> emin - int p + 1) / 2"
proof -
  define u :: real where "u = 2 powi (max \<lfloor>log 2 \<bar>x\<bar>\<rfloor> emin - int p + 1)"
  have u: "0 < u" by (simp add: u_def)
  have "float_round p emin x = of_int (round_to_even (x / u)) * u"
    unfolding u_def using assms by (rule float_round_unfold)
  then have "float_round p emin x - x = u * (of_int (round_to_even (x / u)) - x / u)"
    using u by (simp add: algebra_simps)
  then have "\<bar>float_round p emin x - x\<bar> = u * \<bar>of_int (round_to_even (x / u)) - x / u\<bar>"
    using u by (simp add: abs_mult)
  also have "\<dots> \<le> u * (1 / 2)"
    using u round_to_even_error [of "x / u"] by (intro mult_left_mono) simp_all
  finally show ?thesis by (simp add: u_def)
qed

lemma in_format_dyadic:
  assumes "\<bar>m\<bar> < 2 ^ p" "int j \<le> int p - 1 - emin"
  shows "in_format p emin (of_int m / 2 ^ j)"
  unfolding in_format_def
proof (intro exI conjI)
  show "real_of_int m / 2 ^ j = of_int m * 2 powi (- int j)"
    by (simp add: power_int_minus field_simps)
  show "\<bar>m\<bar> < 2 ^ p" by (rule assms(1))
  show "emin - int p + 1 \<le> - int j" using assms(2) by simp
qed

lemma in_format_of_int:
  assumes "\<bar>m\<bar> < 2 ^ p" "emin \<le> int p - 1"
  shows "in_format p emin (of_int m)"
  using in_format_dyadic [of m p 0 emin] assms by simp

lemma powi_less_imp_less:
  assumes "(2::real) powi a < 2 powi b"
  shows "a < b"
proof (rule ccontr)
  assume "\<not> a < b"
  then have "(2::real) powi b \<le> 2 powi a" by (intro power_int_increasing) simp_all
  then show False using assms by simp
qed

lemma round_to_even_le_twice:
  assumes "0 \<le> y"
  shows "real_of_int (round_to_even y) \<le> 2 * y"
proof (cases "y < 1 / 2")
  case True
  then have "\<lfloor>y\<rfloor> = 0" using assms by (simp add: floor_eq_iff)
  then have "round_to_even y = 0" using True by (simp add: round_to_even_def)
  then show ?thesis using assms by simp
next
  case False
  then show ?thesis using round_to_even_error [of y] by linarith
qed

lemma float_round_le_twice:
  assumes "0 \<le> x"
  shows "float_round p emin x \<le> 2 * x"
proof (cases "x = 0")
  case True
  then show ?thesis by simp
next
  case False
  define u :: real where "u = 2 powi (max \<lfloor>log 2 \<bar>x\<bar>\<rfloor> emin - int p + 1)"
  have u: "0 < u" by (simp add: u_def)
  have "float_round p emin x = of_int (round_to_even (x / u)) * u"
    unfolding u_def using False by (rule float_round_unfold)
  also have "\<dots> \<le> (2 * (x / u)) * u"
    using u assms by (intro mult_right_mono round_to_even_le_twice) simp_all
  also have "\<dots> = 2 * x" using u by simp
  finally show ?thesis .
qed

lemma float_round_nonneg: "0 < p \<Longrightarrow> 0 \<le> x \<Longrightarrow> 0 \<le> float_round p emin x"
  using float_round_mono [of p 0 x emin] by simp

lemma float_round_half:
  assumes "2 powi (emin + 1) \<le> \<bar>x\<bar>"
  shows "float_round p emin (x / 2) = float_round p emin x / 2"
proof -
  have "0 < (2::real) powi (emin + 1)" by simp
  then have "0 < \<bar>x\<bar>" using assms by linarith
  then have x0: "x \<noteq> 0" by simp
  define e where "e = \<lfloor>log 2 \<bar>x\<bar>\<rfloor>"
  have b: "2 powi e \<le> \<bar>x\<bar>" "\<bar>x\<bar> < 2 powi (e + 1)"
    unfolding e_def using x0 by (rule exponent_bounds)+
  have "(2::real) powi (emin + 1) < 2 powi (e + 1)" using assms b(2) by linarith
  then have "emin + 1 < e + 1" by (rule powi_less_imp_less)
  then have e: "emin < e" by simp
  have "(2::real) powi e = 2 * 2 powi (e - 1)" "(2::real) powi (e + 1) = 2 * 2 powi e"
    by (simp_all add: power_int_diff power_int_add)
  then have "2 powi (e - 1) \<le> \<bar>x / 2\<bar>" "\<bar>x / 2\<bar> < 2 powi (e - 1 + 1)"
    using b by simp_all
  then have e': "\<lfloor>log 2 \<bar>x / 2\<bar>\<rfloor> = e - 1" by (rule exponent_eq)
  define u :: real where "u = 2 powi (e - int p + 1)"
  have u: "0 < u" by (simp add: u_def)
  have m1: "max e emin = e" "max (e - 1) emin = e - 1" using e by simp_all
  have u2: "(2::real) powi (e - 1 - int p + 1) = u / 2"
    by (simp add: u_def power_int_diff power_int_add)
  have 1: "float_round p emin x = of_int (round_to_even (x / u)) * u"
    using float_round_unfold [OF x0, of p emin] by (simp only: e_def [symmetric] m1 u_def)
  have "x / 2 \<noteq> 0" using x0 by simp
  from float_round_unfold [OF this, of p emin]
  have "float_round p emin (x / 2) = of_int (round_to_even (x / 2 / (u / 2))) * (u / 2)"
    by (simp only: e' m1 u2)
  also have "x / 2 / (u / 2) = x / u" by simp
  finally show ?thesis by (simp add: 1)
qed

lemma float_round_error_unit:
  assumes "\<bar>x\<bar> \<le> 1" "emin \<le> - 1" "0 < p"
  shows "\<bar>float_round p emin x - x\<bar> \<le> 2 powi (- int p - 1)"
proof (cases "x = 0 \<or> \<bar>x\<bar> = 1")
  case True
  then consider "x = 0" | "x = 1" | "x = - 1" by (auto simp: abs_if split: if_splits)
  then show ?thesis
  proof cases
    case 1
    then show ?thesis by simp
  next
    case 2
    have "in_format p emin (of_int 1)"
      using assms(2,3) by (intro in_format_of_int) simp_all
    then have "float_round p emin 1 = 1" using float_round_exact [of p emin 1] assms(3) by simp
    then show ?thesis using 2 by simp
  next
    case 3
    have "in_format p emin (of_int (- 1))"
      using assms(2,3) by (intro in_format_of_int) simp_all
    then have "float_round p emin (- 1) = - 1"
      using float_round_exact [of p emin "- 1"] assms(3) by simp
    then show ?thesis using 3 by simp
  qed
next
  case False
  then have x: "x \<noteq> 0" "\<bar>x\<bar> < 1" using assms(1) by auto
  define e where "e = \<lfloor>log 2 \<bar>x\<bar>\<rfloor>"
  have "2 powi e \<le> \<bar>x\<bar>" unfolding e_def using x(1) by (rule exponent_bounds)
  then have "(2::real) powi e < 2 powi 0" using x(2) by simp
  then have "e < 0" by (rule powi_less_imp_less)
  then have "max e emin - int p + 1 \<le> - int p" using assms(2) by simp
  then have "(2::real) powi (max e emin - int p + 1) \<le> 2 powi (- int p)"
    by (intro power_int_increasing) simp_all
  moreover have "(2::real) powi (- int p) / 2 = 2 powi (- int p - 1)"
    by (simp add: power_int_diff)
  ultimately show ?thesis
    using float_round_error [OF x(1), of p emin] unfolding e_def by linarith
qed

lemma float_round_above_one:
  assumes "2 \<le> p" "emin \<le> 0" "x \<le> 1 + 2 powi (- int p)"
  shows "float_round p emin x \<le> 1"
proof -
  define y :: real where "y = 1 + 2 powi (- int p)"
  have py: "0 < (2::real) powi (- int p)" by simp
  have "(2::real) powi (- int p) \<le> 2 powi (- 2)"
    using assms(1) by (intro power_int_increasing) simp_all
  then have small: "(2::real) powi (- int p) \<le> 1 / 4" by (simp add: power_int_minus)
  have "2 powi 0 \<le> \<bar>y\<bar>" "\<bar>y\<bar> < 2 powi (0 + 1)"
    using py small by (simp_all add: y_def)
  then have e: "\<lfloor>log 2 \<bar>y\<bar>\<rfloor> = 0" by (rule exponent_eq)
  define u :: real where "u = 2 powi (1 - int p)"
  have u: "0 < u" by (simp add: u_def)
  have "0 < y" unfolding y_def using py by linarith
  then have y0: "y \<noteq> 0" by simp
  have m: "max (0::int) emin - int p + 1 = 1 - int p" using assms(2) by simp
  have fl: "float_round p emin y = of_int (round_to_even (y / u)) * u"
    using float_round_unfold [OF y0, of p emin] by (simp only: e m u_def)
  have "1 / u = 2 powi (int p - 1)" by (simp add: u_def power_int_diff power_int_minus field_simps)
  also have "\<dots> = of_int (2 ^ (p - 1))" using assms(1) by (simp add: power_int_def nat_diff_distrib)
  finally have inv: "1 / u = of_int (2 ^ (p - 1))" .
  have "2 powi (- int p) / u = 2 powi (- int p - (1 - int p))"
    unfolding u_def by (rule power_int_diff [symmetric]) simp
  also have "- int p - (1 - int p) = - 1" by simp
  finally have half: "2 powi (- int p) / u = 1 / 2" by (simp add: power_int_minus)
  have "y / u = 1 / u + 2 powi (- int p) / u" by (simp add: y_def add_divide_distrib)
  then have yu: "y / u = of_int (2 ^ (p - 1)) + 1 / 2" by (simp only: inv half)
  have fl_yu: "\<lfloor>y / u\<rfloor> = 2 ^ (p - 1)" unfolding yu by (simp add: floor_eq_iff)
  have ev: "even ((2::int) ^ (p - 1))" using assms(1) by simp
  have r: "y / u - of_int \<lfloor>y / u\<rfloor> = 1 / 2" unfolding fl_yu by (simp add: yu)
  have "round_to_even (y / u) = 2 ^ (p - 1)"
    unfolding round_to_even_def Let_def r using ev by (simp add: fl_yu)
  then have "float_round p emin y = of_int (2 ^ (p - 1)) * u" by (simp only: fl)
  also have "\<dots> = 1" using inv u by (simp add: field_simps)
  finally have "float_round p emin y = 1" .
  moreover have "float_round p emin x \<le> float_round p emin y"
    using assms(1,3) by (intro float_round_mono) (simp_all add: y_def)
  ultimately show ?thesis by simp
qed

lemma float_round_one:
  assumes "0 < p" "emin \<le> 0"
  shows "float_round p emin 1 = 1" "float_round p emin (- 1) = - 1"
proof -
  have "in_format p emin (of_int 1)" "in_format p emin (of_int (- 1))"
    using assms by (intro in_format_of_int; simp)+
  then show "float_round p emin 1 = 1" "float_round p emin (- 1) = - 1"
    using float_round_exact [of p emin 1] float_round_exact [of p emin "- 1"] assms(1)
    by simp_all
qed


lemma format_bounds:
  "2 \<le> precision dt" "0 < precision dt" "min_exponent dt \<le> - 1" "min_exponent dt \<le> 0"
  "min_exponent dt \<le> max_exponent dt"
  by (cases dt; simp add: precision_def min_exponent_def max_exponent_def)+

lemma round_to_mono: "x \<le> y \<Longrightarrow> round_to dt x \<le> round_to dt y"
  unfolding round_to_def by (rule float_round_mono [OF format_bounds(2)])

lemma round_to_idem [simp]: "round_to dt (round_to dt x) = round_to dt x"
  unfolding round_to_def by (rule float_round_idem [OF format_bounds(2)])

lemma round_to_zero [simp]: "round_to dt 0 = 0"
  by (simp add: round_to_def)

lemma round_to_one [simp]: "round_to dt 1 = 1" "round_to dt (- 1) = - 1"
  unfolding round_to_def by (simp_all add: float_round_one format_bounds)

lemma round_to_dyadic:
  assumes "\<bar>m\<bar> < 2 ^ precision dt" "int j \<le> int (precision dt) - 1 - min_exponent dt"
  shows "round_to dt (of_int m / 2 ^ j) = of_int m / 2 ^ j"
  unfolding round_to_def
  using in_format_dyadic [OF assms] by (rule float_round_exact) (rule format_bounds)

lemma round32_dyadic:
  "\<bar>m\<bar> < 16777216 \<Longrightarrow> j \<le> 149 \<Longrightarrow> round_to float32 (of_int m / 2 ^ j) = of_int m / 2 ^ j"
  by (rule round_to_dyadic) (simp_all add: precision_def min_exponent_def)

lemma round64_dyadic:
  "\<bar>m\<bar> < 9007199254740992 \<Longrightarrow> j \<le> 1074 \<Longrightarrow>
   round_to float64 (of_int m / 2 ^ j) = of_int m / 2 ^ j"
  by (rule round_to_dyadic) (simp_all add: precision_def min_exponent_def)


lemma round_to_even_eval:
  assumes "\<bar>y - of_int n\<bar> < 1 / 2"
  shows "round_to_even y = n"
proof -
  have "\<bar>real_of_int (round_to_even y) - of_int n\<bar> < 1"
    using round_to_even_error [of y] assms by linarith
  then have "\<bar>real_of_int (round_to_even y - n)\<bar> < real_of_int 1" by simp
  then have "\<bar>round_to_even y - n\<bar> < 1" by (simp only: of_int_abs [symmetric] of_int_less_iff)
  then show ?thesis by simp
qed

lemma float_round_eval:
  assumes "2 powi e \<le> \<bar>x\<bar>" "\<bar>x\<bar> < 2 powi (e + 1)" "emin \<le> e"
    and "\<bar>x / 2 powi (e - int p + 1) - of_int n\<bar> < 1 / 2"
  shows "float_round p emin x = of_int n * 2 powi (e - int p + 1)"
proof -
  have e: "\<lfloor>log 2 \<bar>x\<bar>\<rfloor> = e" using assms(1,2) by (rule exponent_eq)
  have "0 < (2::real) powi e" by simp
  then have "0 < \<bar>x\<bar>" using assms(1) by linarith
  then have "x \<noteq> 0" by simp
  from float_round_unfold [OF this, of p emin] show ?thesis
    using assms(3) by (simp add: e max_def round_to_even_eval [OF assms(4)])
qed

lemma round32_below_one:
  assumes "1 / 2 \<le> x" "x < 1" "\<bar>x * 2 ^ 24 - of_int n\<bar> < 1 / 2"
  shows "round_to float32 x = of_int n / 2 ^ 24"
proof -
  have "float_round 24 (- 126) x = of_int n * 2 powi (- 1 - int 24 + 1)"
    using assms by (intro float_round_eval) (simp_all add: power_int_minus field_simps)
  then show ?thesis by (simp add: round_to_def precision_def min_exponent_def power_int_minus field_simps)
qed


lemma largest_representable: "representable dt (largest dt)"
proof -
  define p where "p = precision dt"
  have p: "0 < p" unfolding p_def by (rule format_bounds)
  have "in_format p (min_exponent dt) (of_int (2 ^ p - 1) * 2 powi (max_exponent dt - int p + 1))"
    unfolding in_format_def
  proof (intro exI conjI)
    show "real_of_int (2 ^ p - 1) * 2 powi (max_exponent dt - int p + 1)
        = of_int (2 ^ p - 1) * 2 powi (max_exponent dt - int p + 1)" by simp
    show "\<bar>(2::int) ^ p - 1\<bar> < 2 ^ p" by simp
    show "min_exponent dt - int p + 1 \<le> max_exponent dt - int p + 1"
      using format_bounds(5) [of dt] by simp
  qed
  then show ?thesis by (simp add: representable_def largest_def p_def)
qed

lemma largest_nonneg: "0 \<le> largest dt"
  by (simp add: largest_def)

lemma round_to_representable:
  assumes "\<bar>x\<bar> \<le> largest dt"
  shows "representable dt (round_to dt x)"
proof -
  have ends: "round_to dt (largest dt) = largest dt" "round_to dt (- largest dt) = - largest dt"
  proof -
    have l: "in_format (precision dt) (min_exponent dt) (largest dt)"
      using largest_representable [of dt] by (simp add: representable_def)
    then obtain m k where mk: "largest dt = of_int m * 2 powi k" "\<bar>m\<bar> < 2 ^ precision dt"
      "min_exponent dt - int (precision dt) + 1 \<le> k"
      by (auto simp: in_format_def)
    have "in_format (precision dt) (min_exponent dt) (- largest dt)"
      unfolding in_format_def using mk
      by (intro exI [of _ "- m"] exI [of _ k]) simp
    then show "round_to dt (largest dt) = largest dt" "round_to dt (- largest dt) = - largest dt"
      unfolding round_to_def using l by (simp_all add: float_round_exact format_bounds)
  qed
  have "round_to dt (- largest dt) \<le> round_to dt x" "round_to dt x \<le> round_to dt (largest dt)"
    using assms by (intro round_to_mono; linarith)+
  then have "\<bar>round_to dt x\<bar> \<le> largest dt" by (simp add: ends abs_le_iff)
  moreover have "in_format (precision dt) (min_exponent dt) (round_to dt x)"
    unfolding round_to_def by (rule float_round_in_format) (rule format_bounds)
  ultimately show ?thesis by (simp add: representable_def)
qed

lemma round_to_nearest:
  assumes "representable dt z"
  shows "\<bar>round_to dt x - x\<bar> \<le> \<bar>z - x\<bar>"
  unfolding round_to_def using assms
  by (intro float_round_nearest) (simp_all add: representable_def format_bounds)

lemma round_to_exact: "representable dt z \<Longrightarrow> round_to dt z = z"
  using round_to_nearest [of dt z z] by simp

subsection \<open>Construction\<close>

text \<open>When the constructors raise and what they build.\<close>

lemma torch_linspace_length:
  assumes "0 \<le> n" "n < 2 ^ 63"
  shows "\<exists>bs. torch_linspace rnd a b n = Inr bs \<and> length bs = nat n"
  using assms by (auto simp: torch_linspace_def unpack_long_def Let_def)

lemma torch_linspace_many:
  assumes "0 \<le> n" "n \<noteq> 1" "n < 2 ^ 63"
  shows "torch_linspace rnd start stop n =
     Inr (map (\<lambda>idx. if idx < n div 2
                then rnd (rnd start + rnd (rnd (rnd (rnd stop - rnd start) / rnd (of_int (n - 1)))
                                             * rnd (of_int idx)))
                else rnd (rnd stop - rnd (rnd (rnd (rnd stop - rnd start) / rnd (of_int (n - 1)))
                                            * rnd (of_int (n - idx - 1)))))
              [0..n - 1])"
  using assms by (simp add: torch_linspace_def unpack_long_def Let_def)

lemma torch_linspace_one: "torch_linspace rnd start stop 1 = Inr [rnd start]"
  by (simp add: torch_linspace_def unpack_long_def)


lemma torch_linspace_two:
  assumes "rnd 0 = 0" "\<And>x. rnd (rnd x) = rnd x"
  shows "torch_linspace rnd start stop 2 = Inr [rnd start, rnd stop]"
proof -
  have up: "[0..1::int] = [0, 1]" by (simp add: upto_rec1)
  show ?thesis by (simp add: torch_linspace_many up assms)
qed


lemma torch_linspace_raises:
  "- (2 ^ 63) \<le> n \<Longrightarrow> n < 0 \<Longrightarrow> torch_linspace rnd a b n = Inl RuntimeError"
  by (simp add: torch_linspace_def unpack_long_def)

lemma torch_linspace_overflow:
  "n < - (2 ^ 63) \<or> 2 ^ 63 \<le> n \<Longrightarrow> torch_linspace rnd a b n = Inl ValueError"
  by (auto simp: torch_linspace_def unpack_long_def)

lemma length_cumprod_from [simp]: "length (cumprod_from acc rnd c xs) = length xs"
  by (induction xs arbitrary: c) simp_all

lemma length_cumprod [simp]: "length (cumprod acc rnd xs) = length xs"
  by (simp add: cumprod_def)


lemma schedule_arrays_returns:
  assumes "0 \<le> t" "t < 2 ^ 63"
  shows "\<exists>sf csf ns snr. schedule_arrays acc rnd a b t = Inr (sf, csf, ns, snr)
           \<and> length sf = nat t \<and> length csf = nat t \<and> length ns = nat t
           \<and> length snr = nat t"
proof -
  obtain bs where bs: "torch_linspace rnd a b t = Inr bs" "length bs = nat t"
    using torch_linspace_length [OF assms] by blast
  show ?thesis by (simp add: schedule_arrays_def bs Let_def)
qed

lemma schedule_arrays_raises:
  "- (2 ^ 63) \<le> t \<Longrightarrow> t < 0 \<Longrightarrow> schedule_arrays acc rnd a b t = Inl RuntimeError"
  "t < - (2 ^ 63) \<or> 2 ^ 63 \<le> t \<Longrightarrow> schedule_arrays acc rnd a b t = Inl ValueError"
  by (simp_all add: schedule_arrays_def torch_linspace_raises torch_linspace_overflow)





lemma Scheduler_init_returns:
  assumes "Device dev = Inr d" "0 \<le> r1" "0 \<le> r2" "0 \<le> t" "t < 2 ^ 63" "generate t n = Inr ts"
  shows "\<exists>s. Scheduler_init Device generate n t r1 r2 dev dt = Inr s \<and> timesteps s = ts
           \<and> num_inference_steps s = n \<and> num_train_timesteps s = t
           \<and> device s = d \<and> dtype s = dt
           \<and> length (cumulative_scale_factors s) = nat t
           \<and> length (noise_std s) = nat t
           \<and> length (signal_to_noise_ratios s) = nat t"
proof -
  obtain sf csf ns snr where
    "schedule_arrays (round_to (acc_type dt)) (round_to dt) (round_to float64 (sqrt r1))
       (round_to float64 (sqrt r2)) t = Inr (sf, csf, ns, snr)"
    "length csf = nat t" "length ns = nat t" "length snr = nat t"
    using schedule_arrays_returns [OF assms(4,5)] by blast
  then show ?thesis using assms by (simp add: Scheduler_init_def)
qed

lemma Scheduler_init_arrays:
  assumes "Scheduler_init Device generate n t r1 r2 dev dt = Inr s" "0 \<le> r1" "0 \<le> r2"
  shows "schedule_arrays (round_to (acc_type dt)) (round_to dt) (round_to float64 (sqrt r1))
           (round_to float64 (sqrt r2)) t
         = Inr (scale_factors s, cumulative_scale_factors s, noise_std s,
                signal_to_noise_ratios s)"
  using assms
  by (auto simp: Scheduler_init_def bind_err_def split: sum.splits prod.splits)

lemma Scheduler_init_train_range:
  assumes "Scheduler_init Device generate n t r1 r2 dev dt = Inr s" "0 \<le> r1" "0 \<le> r2"
  shows "0 \<le> t" "t < 2 ^ 63" "length (cumulative_scale_factors s) = nat t"
    "length (noise_std s) = nat t" "length (signal_to_noise_ratios s) = nat t"
proof -
  have arrays: "schedule_arrays (round_to (acc_type dt)) (round_to dt)
      (round_to float64 (sqrt r1)) (round_to float64 (sqrt r2)) t
      = Inr (scale_factors s, cumulative_scale_factors s, noise_std s,
             signal_to_noise_ratios s)"
    using assms by (rule Scheduler_init_arrays)
  have "\<not> (t < - (2 ^ 63) \<or> 2 ^ 63 \<le> t)"
    using arrays schedule_arrays_raises(2) [of t] by auto
  moreover from this have "\<not> t < 0"
    using arrays schedule_arrays_raises(1) [of t] by auto
  ultimately show t: "0 \<le> t" "t < 2 ^ 63" by simp_all
  from schedule_arrays_returns [OF t] arrays
  show "length (cumulative_scale_factors s) = nat t" "length (noise_std s) = nat t"
    "length (signal_to_noise_ratios s) = nat t"
    by (metis Pair_inject sum.inject(2))+
qed





lemma DPMSolver_init_returns:
  assumes "Device dev = Inr d" "0 \<le> r1" "0 \<le> r2" "0 \<le> t" "t < 2 ^ 63"
    "generate_timesteps t n = Inr ts"
  shows "\<exists>s. DPMSolver_init Device n t r1 r2 dev = Inr s \<and> timesteps s = ts
           \<and> num_inference_steps s = n \<and> num_train_timesteps s = t
           \<and> device s = d \<and> dtype s = float32
           \<and> length (cumulative_scale_factors s) = nat t
           \<and> length (noise_std s) = nat t
           \<and> length (signal_to_noise_ratios s) = nat t
           \<and> estimated_data s = [empty_tensor, empty_tensor]
           \<and> initial_steps s = 0"
proof -
  obtain s where s: "Scheduler_init Device generate_timesteps n t r1 r2 dev float32 = Inr s"
    "timesteps s = ts" "num_inference_steps s = n" "num_train_timesteps s = t"
    "device s = d" "dtype s = float32"
    "length (cumulative_scale_factors s) = nat t" "length (noise_std s) = nat t"
    "length (signal_to_noise_ratios s) = nat t"
    using Scheduler_init_returns [where Device = Device and dev = dev and dt = float32,
        OF assms(1-5), of generate_timesteps n ts] assms(6)
    by blast
  then show ?thesis
    by (simp add: DPMSolver_init_def scheduler.defs solver.defs numeral_2_eq_2)
qed


lemma DPMSolver_init_fresh:
  "DPMSolver_init Device n t r1 r2 dev = Inr s \<Longrightarrow>
   estimated_data s = [empty_tensor, empty_tensor] \<and> initial_steps s = 0"
  by (cases "Scheduler_init Device generate_timesteps n t r1 r2 dev float32")
    (auto simp: DPMSolver_init_def scheduler.defs solver.defs numeral_2_eq_2)

lemma DPMSolver_init_arrays:
  assumes "DPMSolver_init Device n t r1 r2 dev = Inr s" "0 \<le> r1" "0 \<le> r2"
  shows "schedule_arrays (round_to float64) (round_to float32) (round_to float64 (sqrt r1))
           (round_to float64 (sqrt r2)) t
         = Inr (scale_factors s, cumulative_scale_factors s, noise_std s,
                signal_to_noise_ratios s)"
proof -
  obtain s0 where s0: "Scheduler_init Device generate_timesteps n t r1 r2 dev float32 = Inr s0"
    using assms(1)
    by (cases "Scheduler_init Device generate_timesteps n t r1 r2 dev float32")
      (simp_all add: DPMSolver_init_def)
  then have "s = scheduler.extend s0 (solver.fields (replicate 2 empty_tensor) 0)"
    using assms(1) by (simp add: DPMSolver_init_def)
  then have "scale_factors s = scale_factors s0"
    "cumulative_scale_factors s = cumulative_scale_factors s0"
    "noise_std s = noise_std s0" "signal_to_noise_ratios s = signal_to_noise_ratios s0"
    by (simp_all add: scheduler.defs solver.defs)
  then show ?thesis
    using Scheduler_init_arrays [OF s0 assms(2,3)] by (simp add: acc_type_def)
qed

lemma DPMSolver_init_schedule_ok:
  assumes "Device dev = Inr d" "0 \<le> r1" "0 \<le> r2" "1 \<le> n" "n \<le> 2 ^ 24" "n < t" "t \<le> 2 ^ 53"
  shows "\<exists>s. DPMSolver_init Device n t r1 r2 dev = Inr s \<and> schedule_ok s
           \<and> int (length (timesteps s)) = n \<and> initial_steps s = 0
           \<and> estimated_data s = [empty_tensor, empty_tensor]"
proof -
  obtain ts where ts: "generate_timesteps t n = Inr ts" "length ts = nat n"
    "\<forall>x \<in> set ts. 1 \<le> x \<and> x \<le> t - 1"
    using generate_timesteps_descending [OF assms(4-7)] by blast
  have t: "0 \<le> t" "t < 2 ^ 63" using assms by simp_all
  from DPMSolver_init_returns [where Device = Device and dev = dev, OF assms(1-3) t ts(1)]
  obtain s where s: "DPMSolver_init Device n t r1 r2 dev = Inr s" "timesteps s = ts"
    "length (cumulative_scale_factors s) = nat t" "length (noise_std s) = nat t"
    "length (signal_to_noise_ratios s) = nat t"
    "estimated_data s = [empty_tensor, empty_tensor]" "initial_steps s = 0"
    by blast
  have "schedule_ok s"
    using s ts(3) t by (auto simp: schedule_ok_def)
  then show ?thesis using s ts(2) assms(4) by auto
qed

lemma torch_device_cpu: "torch_device ''cpu'' = Inr (TorchDevice ''cpu'' None)"
  by (simp add: torch_device_def device_types_def)


lemma two_step_solver_facts:
  "DPMSolver_init torch_device 2 3 (1 / 16) (1 / 4) ''cpu'' = Inr two_step_solver"
  "timesteps two_step_solver = [2, 1]"
  "length (cumulative_scale_factors two_step_solver) = 3"
  "length (noise_std two_step_solver) = 3"
  "length (signal_to_noise_ratios two_step_solver) = 3"
  "estimated_data two_step_solver = [empty_tensor, empty_tensor]"
  "initial_steps two_step_solver = 0"
  using DPMSolver_init_returns [where Device = torch_device and dev = "''cpu''",
      OF torch_device_cpu, of "1 / 16" "1 / 4" 3 2 "[2, 1]"]
    timesteps_3_2
  by (auto simp: two_step_solver_def)

lemma schedule_ok_two_step_solver: "schedule_ok two_step_solver"
  by (simp add: schedule_ok_def two_step_solver_facts)

lemma sqrt_sixteenth: "sqrt (1 / 16) = 1 / 4"
  by (rule real_sqrt_unique) (simp_all add: power2_eq_square)

lemma sqrt_quarter: "sqrt (1 / 4) = 1 / 2"
  by (rule real_sqrt_unique) (simp_all add: power2_eq_square)

lemma round32_values:
  "round_to float32 (1 / 4) = 1 / 4" "round_to float32 (1 / 2) = 1 / 2"
  "round_to float32 (1 / 8) = 1 / 8" "round_to float32 2 = 2"
  "round_to float32 (3 / 8) = 3 / 8" "round_to float32 (1 / 16) = 1 / 16"
  "round_to float32 (9 / 64) = 9 / 64" "round_to float32 (15 / 16) = 15 / 16"
  "round_to float32 (55 / 64) = 55 / 64" "round_to float32 (3 / 4) = 3 / 4"
  "round_to float32 (825 / 1024) = 825 / 1024" "round_to float32 (2475 / 4096) = 2475 / 4096"
  "round_to float32 (199 / 1024) = 199 / 1024" "round_to float32 (1621 / 4096) = 1621 / 4096"
  using round32_dyadic [of 1 2] round32_dyadic [of 1 1] round32_dyadic [of 1 3]
    round32_dyadic [of 2 0] round32_dyadic [of 3 3] round32_dyadic [of 1 4]
    round32_dyadic [of 9 6] round32_dyadic [of 15 4] round32_dyadic [of 55 6]
    round32_dyadic [of 3 2] round32_dyadic [of 825 10] round32_dyadic [of 2475 12]
    round32_dyadic [of 199 10] round32_dyadic [of 1621 12]
  by simp_all

lemma round64_values:
  "round_to float64 (1 / 4) = 1 / 4" "round_to float64 (1 / 2) = 1 / 2"
  "round_to float64 (15 / 16) = 15 / 16"
  "round_to float64 (825 / 1024) = 825 / 1024" "round_to float64 (2475 / 4096) = 2475 / 4096"
  using round64_dyadic [of 1 2] round64_dyadic [of 1 1] round64_dyadic [of 15 4]
    round64_dyadic [of 825 10] round64_dyadic [of 2475 12]
  by simp_all

lemma two_step_arrays:
  "schedule_arrays (round_to float64) (round_to float32) (1 / 4) (1 / 2) 3 =
     Inr ([15 / 16, 55 / 64, 3 / 4],
          [round_to float32 (sqrt (15 / 16)), round_to float32 (sqrt (825 / 1024)),
           round_to float32 (sqrt (2475 / 4096))],
          [1 / 4, round_to float32 (sqrt (199 / 1024)), round_to float32 (sqrt (1621 / 4096))],
          [round_to float32 (round_to float32 (ln (round_to float32 (sqrt (15 / 16))))
             - round_to float32 (ln (1 / 4))),
           round_to float32 (round_to float32 (ln (round_to float32 (sqrt (825 / 1024))))
             - round_to float32 (ln (round_to float32 (sqrt (199 / 1024))))),
           round_to float32 (round_to float32 (ln (round_to float32 (sqrt (2475 / 4096))))
             - round_to float32 (ln (round_to float32 (sqrt (1621 / 4096)))))])"
proof -
  have up: "[0..2::int] = [0, 1, 2]" by (simp add: upto_rec1)
  have sq: "sqrt (1 / 16) = 1 / 4"
    by (rule real_sqrt_unique) (simp_all add: power2_eq_square)
  have lin: "torch_linspace (round_to float32) (1 / 4) (1 / 2) 3 = Inr [1 / 4, 3 / 8, 1 / 2]"
    by (simp add: torch_linspace_many up round32_values)
  show ?thesis
    unfolding schedule_arrays_def lin bind_err_Inr
    by (simp add: Let_def cumprod_def round32_values round64_values sq)
qed

lemma two_step_solver_noise_std:
  "noise_std two_step_solver =
     [1 / 4, round_to float32 (sqrt (199 / 1024)), round_to float32 (sqrt (1621 / 4096))]"
  using DPMSolver_init_arrays [OF two_step_solver_facts(1)] two_step_arrays
  by (simp add: sqrt_sixteenth sqrt_quarter round64_values)

lemma two_step_solver_noise_std_differs:
  "noise_std two_step_solver ! 0 \<noteq> noise_std two_step_solver ! 2"
proof -
  have "sqrt (1 / 4) \<le> sqrt (1621 / 4096)" by (simp only: real_sqrt_le_iff)
  then have "round_to float32 (1 / 2) \<le> round_to float32 (sqrt (1621 / 4096))"
    unfolding sqrt_quarter by (rule round_to_mono)
  then have "1 / 2 \<le> round_to float32 (sqrt (1621 / 4096))"
    using round32_dyadic [of 1 1] by simp
  then show ?thesis by (simp add: two_step_solver_noise_std)
qed

lemma schedule_ok_timestep:
  assumes "schedule_ok s" "0 \<le> i" "i < int (length (timesteps s))"
  shows "0 \<le> timesteps s ! nat i" "timesteps s ! nat i < int (length (noise_std s))"
    "timesteps s ! nat i < int (length (cumulative_scale_factors s))"
    "timesteps s ! nat i < int (length (signal_to_noise_ratios s))"
proof -
  have "timesteps s ! nat i \<in> set (timesteps s)" using assms(2,3) by simp
  then show "0 \<le> timesteps s ! nat i" "timesteps s ! nat i < int (length (noise_std s))"
    "timesteps s ! nat i < int (length (cumulative_scale_factors s))"
    "timesteps s ! nat i < int (length (signal_to_noise_ratios s))"
    using assms(1) by (auto simp: schedule_ok_def)
qed

subsection \<open>The schedule arrays\<close>

text \<open>In exact arithmetic the schedule is strictly monotone: for rates
  \<open>0 < initial < final < 1\<close> the cumulative scale factors decrease strictly, the noise
  standard deviations increase strictly, both stay strictly between 0 and 1, and
  the log signal-to-noise ratios decrease strictly.\<close>

lemma torch_linspace_between:
  assumes "a < b" "torch_linspace (\<lambda>x. x) a b n = Inr bs"
  shows "\<forall>x \<in> set bs. a \<le> x \<and> x \<le> b"
proof -
  have n: "0 \<le> n" "n < 2 ^ 63"
    using assms(2) by (auto simp: torch_linspace_def unpack_long_def split: if_splits)
  show ?thesis
  proof (cases "n = 1")
    case True
    then show ?thesis using assms by (auto simp: torch_linspace_one)
  next
    case False
    define step where "step = (b - a) / of_int (n - 1)"
    have bs: "bs = map (\<lambda>idx. if idx < n div 2 then a + step * of_int idx
                               else b - step * of_int (n - idx - 1)) [0..n - 1]"
      using assms(2) unfolding torch_linspace_many [OF n(1) False n(2)] step_def by simp
    show ?thesis
    proof
      fix x assume "x \<in> set bs"
      then obtain i where i: "0 \<le> i" "i \<le> n - 1"
        "x = (if i < n div 2 then a + step * of_int i else b - step * of_int (n - i - 1))"
        by (auto simp: bs)
      then have n1: "0 < n - 1" using False n by simp
      have frac: "0 \<le> step * of_int k \<and> step * of_int k \<le> b - a"
        if "0 \<le> k" "k \<le> n - 1" for k
      proof -
        define f where "f = real_of_int k / of_int (n - 1)"
        have f: "0 \<le> f" "f \<le> 1" using that n1 by (simp_all add: f_def)
        have eq: "step * of_int k = f * (b - a)" by (simp add: step_def f_def)
        have "0 \<le> f * (b - a)" using f assms(1) by simp
        moreover have "f * (b - a) \<le> 1 * (b - a)"
          using f assms(1) by (intro mult_right_mono) simp_all
        ultimately show ?thesis by (simp add: eq)
      qed
      show "a \<le> x \<and> x \<le> b"
      proof (cases "i < n div 2")
        case True
        then show ?thesis using frac [of i] i by simp
      next
        case False
        then show ?thesis using frac [of "n - i - 1"] i by simp
      qed
    qed
  qed
qed

lemma cumprod_from_decreasing:
  assumes "0 < c" "\<forall>x \<in> set xs. 0 < x \<and> x < 1"
  shows "sorted_wrt (>) (cumprod_from (\<lambda>x. x) (\<lambda>x. x) c xs)
       \<and> (\<forall>p \<in> set (cumprod_from (\<lambda>x. x) (\<lambda>x. x) c xs). 0 < p \<and> p < c)"
  using assms
proof (induction xs arbitrary: c)
  case Nil
  then show ?case by simp
next
  case (Cons x xs)
  have x: "0 < x" "x < 1" using Cons.prems(2) by simp_all
  have ax: "0 < c * x" "c * x < c"
    using x Cons.prems(1) by simp_all
  have "\<forall>x \<in> set xs. 0 < x \<and> x < 1" using Cons.prems(2) by simp
  from Cons.IH [OF ax(1) this]
  have IH: "sorted_wrt (>) (cumprod_from (\<lambda>x. x) (\<lambda>x. x) (c * x) xs)"
    "\<forall>p \<in> set (cumprod_from (\<lambda>x. x) (\<lambda>x. x) (c * x) xs). 0 < p \<and> p < c * x"
    by simp_all
  show ?case using IH ax by auto
qed

lemma schedule_invariants_exact:
  assumes r: "0 < r1" "r1 < r2" "r2 < 1"
    and s: "schedule_arrays (\<lambda>x. x) (\<lambda>x. x) (sqrt r1) (sqrt r2) t = Inr (sf, csf, ns, snr)"
  shows "sorted_wrt (>) csf" and "sorted_wrt (<) ns"
    and "\<forall>c \<in> set csf. 0 < c \<and> c < 1" and "\<forall>c \<in> set ns. 0 < c \<and> c < 1"
    and "sorted_wrt (>) snr"
proof -
  obtain bs where bs: "torch_linspace (\<lambda>x. x) (sqrt r1) (sqrt r2) t = Inr bs"
    using s unfolding schedule_arrays_def
    by (cases "torch_linspace (\<lambda>x. x) (sqrt r1) (sqrt r2) t") simp_all
  define ps where "ps = cumprod (\<lambda>x. x) (\<lambda>x. x) sf"
  have ab: "0 < sqrt r1" "sqrt r1 < sqrt r2" "sqrt r2 < 1" using r by simp_all
  have between: "\<forall>x \<in> set bs. sqrt r1 \<le> x \<and> x \<le> sqrt r2"
    using ab(2) bs by (rule torch_linspace_between)
  have fields: "sf = map (\<lambda>b. 1 - b * b) bs" "csf = map sqrt ps"
    "ns = map (\<lambda>p. sqrt (1 - p)) ps"
    "snr = map2 (\<lambda>c n. ln c - ln n) csf ns"
    using s bs unfolding schedule_arrays_def by (auto simp: Let_def ps_def)
  have sf: "\<forall>x \<in> set sf. 0 < x \<and> x < 1"
  proof
    fix x assume "x \<in> set sf"
    then obtain b where b: "b \<in> set bs" "x = 1 - b * b" by (auto simp: fields)
    then have "sqrt r1 \<le> b" "b \<le> sqrt r2" using between by simp_all
    then have "0 < b" "b < 1" using ab by linarith+
    then have "0 < b * b" "b * b < 1 * 1" by (simp, intro mult_strict_mono) simp_all
    then show "0 < x \<and> x < 1" by (simp add: b(2))
  qed
  have ps: "sorted_wrt (>) ps" "\<forall>p \<in> set ps. 0 < p \<and> p < 1"
    using cumprod_from_decreasing [of 1 sf] sf by (simp_all add: ps_def cumprod_def)
  have snr: "snr = map (\<lambda>p. ln (sqrt p) - ln (sqrt (1 - p))) ps"
    unfolding fields by (rule nth_equalityI) simp_all
  show "sorted_wrt (>) csf"
    unfolding fields sorted_wrt_map
    by (rule sorted_wrt_mono_rel [OF _ ps(1)]) simp
  show "sorted_wrt (<) ns"
    unfolding fields sorted_wrt_map
    by (rule sorted_wrt_mono_rel [OF _ ps(1)]) simp
  show "\<forall>c \<in> set csf. 0 < c \<and> c < 1"
    using ps(2) by (auto simp: fields)
  show "\<forall>c \<in> set ns. 0 < c \<and> c < 1"
    using ps(2) by (auto simp: fields)
  show "sorted_wrt (>) snr"
    unfolding snr sorted_wrt_map
  proof (rule sorted_wrt_mono_rel [OF _ ps(1)])
    fix p q assume "p \<in> set ps" "q \<in> set ps" "q < p"
    then have "0 < q" "q < p" "p < 1" using ps(2) by auto
    then have "ln (sqrt q) < ln (sqrt p)" "ln (sqrt (1 - p)) < ln (sqrt (1 - q))"
      by simp_all
    then show "ln (sqrt q) - ln (sqrt (1 - q)) < ln (sqrt p) - ln (sqrt (1 - p))"
      by simp
  qed
qed

text \<open>In a floating-point format rounding is monotone but not strictly so, and it
  keeps 0 and 1: the interpolated values stay within \<open>[-1, 1]\<close>, the scale factors
  within \<open>[0, 1]\<close>, and the schedule is monotone, not strictly.\<close>

lemma torch_linspace_unit:
  assumes p: "2 \<le> p" and emin: "emin \<le> - 1"
    and ab: "0 \<le> start" "start \<le> stop" "stop \<le> 1"
    and bs: "torch_linspace (float_round p emin) start stop steps = Inr bs"
  shows "\<forall>v \<in> set bs. \<bar>v\<bar> \<le> 1"
proof -
  define rnd where "rnd = float_round p emin"
  have p0: "0 < p" using p by simp
  have mono: "rnd x \<le> rnd y" if "x \<le> y" for x y
    unfolding rnd_def using p0 that by (rule float_round_mono)
  have r0: "rnd 0 = 0" by (simp add: rnd_def)
  have r1: "rnd 1 = 1" "rnd (- 1) = - 1"
    unfolding rnd_def using p0 emin by (simp_all add: float_round_one)
  have idem: "rnd (rnd x) = rnd x" for x
    unfolding rnd_def using p0 by (rule float_round_idem)
  define a where "a = rnd start"
  define b where "b = rnd stop"
  have a: "0 \<le> a" "a \<le> b" "b \<le> 1"
    using mono [of 0 start] mono [of start stop] mono [of stop 1] ab
    by (simp_all add: a_def b_def r0 r1)
  have steps: "- (2 ^ 63) \<le> steps" "steps < 2 ^ 63" "0 \<le> steps"
    using bs by (auto simp: torch_linspace_def unpack_long_def split: if_splits)
  show ?thesis
  proof (cases "steps = 1")
    case True
    then have "bs = [a]" using bs by (simp add: torch_linspace_one a_def rnd_def)
    then show ?thesis using a by simp
  next
    case False
    define n where "n = steps - 1"
    define d where "d = rnd (b - a)"
    define nf where "nf = rnd (of_int n)"
    define step where "step = rnd (d / nf)"
    have bs': "bs = map (\<lambda>idx. if idx < steps div 2
                            then rnd (a + rnd (step * rnd (of_int idx)))
                            else rnd (b - rnd (step * rnd (of_int (steps - idx - 1)))))
                     [0..steps - 1]"
      using bs unfolding torch_linspace_many [OF steps(3) False steps(2)]
        a_def b_def step_def d_def nf_def n_def rnd_def by simp
    show ?thesis
    proof (cases "steps = 0")
      case True
      then show ?thesis by (simp add: bs')
    next
      case s0: False
      have n1: "1 \<le> n" using steps s0 False by (simp add: n_def)
      have d: "0 \<le> d" "d \<le> 1"
        using mono [of 0 "b - a"] mono [of "b - a" 1] a by (simp_all add: d_def r0 r1)
      have derr: "\<bar>d - (b - a)\<bar> \<le> 2 powi (- int p - 1)"
        unfolding d_def rnd_def using a emin p0 by (intro float_round_error_unit) simp_all
      have "rnd 1 \<le> rnd (of_int n)" using n1 by (intro mono) simp
      then have nf: "1 \<le> nf" by (simp add: nf_def r1)
      have step0: "0 \<le> step"
        using mono [of 0 "d / nf"] d nf by (simp add: step_def r0)
      have step2: "step \<le> 2 * (d / nf)"
        unfolding step_def rnd_def using d nf by (intro float_round_le_twice) simp
      have w: "0 \<le> rnd (step * rnd (of_int k)) \<and> rnd (step * rnd (of_int k)) \<le> d"
        if k: "0 \<le> k" "2 * k \<le> n" for k
      proof -
        have "rnd 0 \<le> rnd (of_int k)" using k(1) by (intro mono) simp
        then have k0: "0 \<le> rnd (of_int k)" by (simp add: r0)
        have "real_of_int (2 * k) \<le> of_int n" using k(2) by (simp only: of_int_le_iff)
        then have "real_of_int k \<le> of_int n / 2" by simp
        then have "rnd (of_int k) \<le> rnd (of_int n / 2)" by (rule mono)
        also have "rnd (of_int n / 2) = nf / 2"
        proof -
          have "(2::real) powi (emin + 1) \<le> 2 powi 0"
            using emin by (intro power_int_increasing) simp_all
          moreover have "1 \<le> \<bar>real_of_int n\<bar>" using n1 by simp
          ultimately have "2 powi (emin + 1) \<le> \<bar>real_of_int n\<bar>" by simp
          then show ?thesis unfolding nf_def rnd_def by (rule float_round_half)
        qed
        finally have kn: "rnd (of_int k) \<le> nf / 2" .
        have "step * rnd (of_int k) \<le> (2 * (d / nf)) * (nf / 2)"
          using step2 kn step0 k0 by (intro mult_mono) simp_all
        also have "\<dots> = d" using nf by simp
        finally have "rnd (step * rnd (of_int k)) \<le> rnd d" by (rule mono)
        then have "rnd (step * rnd (of_int k)) \<le> d" by (simp add: d_def idem)
        moreover have "rnd 0 \<le> rnd (step * rnd (of_int k))"
          using step0 k0 by (intro mono) simp
        ultimately show ?thesis by (simp add: r0)
      qed
      show ?thesis
      proof
        fix v assume "v \<in> set bs"
        then obtain idx where idx: "0 \<le> idx" "idx \<le> steps - 1"
          "v = (if idx < steps div 2
                then rnd (a + rnd (step * rnd (of_int idx)))
                else rnd (b - rnd (step * rnd (of_int (steps - idx - 1)))))"
          by (auto simp: bs')
        show "\<bar>v\<bar> \<le> 1"
        proof (cases "idx < steps div 2")
          case True
          define w where "w = rnd (step * rnd (of_int idx))"
          have "2 * idx \<le> n" using True by (simp add: n_def)
          then have w: "0 \<le> w" "w \<le> d" using w [OF idx(1)] by (simp_all add: w_def)
          have v: "v = rnd (a + w)" using True idx(3) by (simp add: w_def)
          have "rnd 0 \<le> rnd (a + w)" using a w by (intro mono) simp
          then have lo: "0 \<le> v" by (simp add: v r0)
          have "(2::real) powi (- int p - 1) \<le> 2 powi (- int p)"
            by (intro power_int_increasing) simp_all
          then have "a + w \<le> 1 + 2 powi (- int p)" using w a derr by linarith
          then have "v \<le> 1"
            unfolding v rnd_def using p emin by (intro float_round_above_one) simp_all
          then show ?thesis using lo by simp
        next
          case False
          define k where "k = steps - idx - 1"
          define w where "w = rnd (step * rnd (of_int k))"
          have "0 \<le> k" "2 * k \<le> n" using False idx(2) by (simp_all add: n_def k_def)
          then have w: "0 \<le> w" "w \<le> d" using w [of k] by (simp_all add: w_def)
          have v: "v = rnd (b - w)" using False idx(3) by (simp add: w_def k_def)
          have "rnd (b - w) \<le> rnd b" using w by (intro mono) simp
          then have hi: "v \<le> 1" using a by (simp add: v b_def idem)
          have "rnd (- 1) \<le> rnd (b - w)" using w d a by (intro mono) simp
          then show ?thesis using hi by (simp add: v r1)
        qed
      qed
    qed
  qed
qed



lemma cumprod_from_weak:
  assumes acc_mono: "\<And>x y. x \<le> y \<Longrightarrow> acc x \<le> acc y"
    and acc_idem: "\<And>x. acc (acc x) = acc x" and acc0: "acc 0 = 0"
    and rnd_mono: "\<And>x y. x \<le> y \<Longrightarrow> rnd x \<le> rnd y"
    and c: "acc c = c" "0 \<le> c"
    and xs: "\<forall>x \<in> set xs. 0 \<le> x \<and> x \<le> 1"
  shows "sorted_wrt (\<ge>) (cumprod_from acc rnd c xs)
       \<and> (\<forall>v \<in> set (cumprod_from acc rnd c xs). rnd 0 \<le> v \<and> v \<le> rnd c)"
  using c xs
proof (induction xs arbitrary: c)
  case Nil
  then show ?case by simp
next
  case (Cons x xs)
  define c' where "c' = acc (c * x)"
  have x: "0 \<le> x" "x \<le> 1" using Cons.prems(3) by simp_all
  have "0 \<le> c * x" "c * x \<le> c"
    using x Cons.prems(2) by (simp_all add: mult_left_le)
  then have "acc 0 \<le> acc (c * x)" "acc (c * x) \<le> acc c" by (simp_all add: acc_mono)
  then have c': "0 \<le> c'" "c' \<le> c" by (simp_all add: c'_def acc0 Cons.prems(1))
  have "acc c' = c'" by (simp add: c'_def acc_idem)
  moreover have "\<forall>x \<in> set xs. 0 \<le> x \<and> x \<le> 1" using Cons.prems(3) by simp
  ultimately have IH: "sorted_wrt (\<ge>) (cumprod_from acc rnd c' xs)"
    "\<forall>v \<in> set (cumprod_from acc rnd c' xs). rnd 0 \<le> v \<and> v \<le> rnd c'"
    using Cons.IH [of c'] c'(1) by simp_all
  have rc: "rnd 0 \<le> rnd c'" "rnd c' \<le> rnd c" using c' by (simp_all add: rnd_mono)
  have "\<forall>v \<in> set (cumprod_from acc rnd c' xs). rnd 0 \<le> v \<and> v \<le> rnd c \<and> v \<le> rnd c'"
    using IH(2) rc by auto
  then show ?case using IH(1) rc by (auto simp: c'_def)
qed

lemma sorted_wrt_map_mono:
  assumes "sorted_wrt P xs" "\<And>x y. x \<in> set xs \<Longrightarrow> y \<in> set xs \<Longrightarrow> P x y \<Longrightarrow> Q (f x) (f y)"
  shows "sorted_wrt Q (map f xs)"
  unfolding sorted_wrt_map using assms(2) assms(1) by (rule sorted_wrt_mono_rel)

lemma schedule_arrays_weak:
  assumes p: "2 \<le> p" and emin: "emin \<le> - 1" and q: "0 < q" and qmin: "qmin \<le> 0"
    and ab: "0 \<le> start" "start \<le> stop" "stop \<le> 1"
    and arrays: "schedule_arrays (float_round q qmin) (float_round p emin) start stop steps
                   = Inr (sf, csf, ns, snr)"
  shows "\<forall>v \<in> set sf. 0 \<le> v \<and> v \<le> 1"
    and "sorted_wrt (\<ge>) csf" and "\<forall>v \<in> set csf. 0 \<le> v \<and> v \<le> 1"
    and "sorted_wrt (\<le>) ns" and "\<forall>v \<in> set ns. 0 \<le> v \<and> v \<le> 1"
    and "\<forall>i j. i < j \<and> j < length snr \<and> 0 < ns ! i \<and> 0 < csf ! j \<longrightarrow> snr ! j \<le> snr ! i"
    and "length csf = length sf" "length ns = length sf" "length snr = length sf"
proof -
  define rnd where "rnd = float_round p emin"
  define acc where "acc = float_round q qmin"
  have p0: "0 < p" using p by simp
  have mono: "rnd x \<le> rnd y" if "x \<le> y" for x y
    unfolding rnd_def using p0 that by (rule float_round_mono)
  have r0: "rnd 0 = 0" by (simp add: rnd_def)
  have r1: "rnd 1 = 1"
    unfolding rnd_def using p0 emin by (simp add: float_round_one)
  have acc_mono: "acc x \<le> acc y" if "x \<le> y" for x y
    unfolding acc_def using q that by (rule float_round_mono)
  have acc_idem: "acc (acc x) = acc x" for x
    unfolding acc_def using q by (rule float_round_idem)
  have acc0: "acc 0 = 0" by (simp add: acc_def)
  obtain bs where bs: "torch_linspace rnd start stop steps = Inr bs"
    using arrays unfolding schedule_arrays_def rnd_def
    by (cases "torch_linspace (float_round p emin) start stop steps") simp_all
  have unit: "\<forall>v \<in> set bs. \<bar>v\<bar> \<le> 1"
    using p emin ab bs unfolding rnd_def by (rule torch_linspace_unit)
  define ps where "ps = cumprod acc rnd sf"
  have fields: "sf = map (\<lambda>b. rnd (1 - rnd (b * b))) bs"
    "csf = map (\<lambda>p. rnd (sqrt p)) ps"
    "ns = map (\<lambda>p. rnd (sqrt (rnd (1 - p)))) ps"
    "snr = map2 (\<lambda>c n. rnd (rnd (ln c) - rnd (ln n))) csf ns"
    using arrays bs unfolding schedule_arrays_def rnd_def [symmetric] acc_def [symmetric]
    by (auto simp: Let_def ps_def)
  show lens: "length csf = length sf" "length ns = length sf" "length snr = length sf"
    by (simp_all add: fields ps_def)
  show sf: "\<forall>v \<in> set sf. 0 \<le> v \<and> v \<le> 1"
  proof
    fix v assume "v \<in> set sf"
    then obtain b where b: "b \<in> set bs" "v = rnd (1 - rnd (b * b))" by (auto simp: fields)
    have "\<bar>b\<bar> \<le> 1" using unit b(1) by simp
    then have "0 \<le> b * b" "b * b \<le> 1"
      by (simp_all add: abs_le_square_iff [of b 1, simplified] power2_eq_square)
    then have "rnd 0 \<le> rnd (b * b)" "rnd (b * b) \<le> rnd 1" by (simp_all add: mono)
    then have "0 \<le> 1 - rnd (b * b)" "1 - rnd (b * b) \<le> 1" by (simp_all add: r0 r1)
    then have "rnd 0 \<le> rnd (1 - rnd (b * b))" "rnd (1 - rnd (b * b)) \<le> rnd 1"
      by (simp_all add: mono)
    then show "0 \<le> v \<and> v \<le> 1" by (simp add: b(2) r0 r1)
  qed
  have acc1: "acc 1 = 1" unfolding acc_def using q qmin by (simp add: float_round_one)
  have ps: "sorted_wrt (\<ge>) ps" "\<forall>v \<in> set ps. 0 \<le> v \<and> v \<le> 1"
    using cumprod_from_weak [of acc rnd 1 sf, OF acc_mono acc_idem acc0 mono acc1 _ sf]
    by (simp_all add: ps_def cumprod_def r0 r1)
  show "sorted_wrt (\<ge>) csf"
    unfolding fields by (rule sorted_wrt_map_mono [OF ps(1)]) (simp add: mono)
  show "\<forall>v \<in> set csf. 0 \<le> v \<and> v \<le> 1"
  proof
    fix v assume "v \<in> set csf"
    then obtain c where c: "c \<in> set ps" "v = rnd (sqrt c)" by (auto simp: fields)
    then have "0 \<le> sqrt c" "sqrt c \<le> 1" using ps(2) by simp_all
    then have "rnd 0 \<le> rnd (sqrt c)" "rnd (sqrt c) \<le> rnd 1" by (simp_all add: mono)
    then show "0 \<le> v \<and> v \<le> 1" by (simp add: c(2) r0 r1)
  qed
  show "sorted_wrt (\<le>) ns"
    unfolding fields by (rule sorted_wrt_map_mono [OF ps(1)]) (simp add: mono)
  show "\<forall>v \<in> set ns. 0 \<le> v \<and> v \<le> 1"
  proof
    fix v assume "v \<in> set ns"
    then obtain c where c: "c \<in> set ps" "v = rnd (sqrt (rnd (1 - c)))" by (auto simp: fields)
    then have "0 \<le> 1 - c" "1 - c \<le> 1" using ps(2) by simp_all
    then have "rnd 0 \<le> rnd (1 - c)" "rnd (1 - c) \<le> rnd 1" by (simp_all add: mono)
    then have "0 \<le> sqrt (rnd (1 - c))" "sqrt (rnd (1 - c)) \<le> 1" by (simp_all add: r0 r1)
    then have "rnd 0 \<le> rnd (sqrt (rnd (1 - c)))" "rnd (sqrt (rnd (1 - c))) \<le> rnd 1"
      by (simp_all add: mono)
    then show "0 \<le> v \<and> v \<le> 1" by (simp add: c(2) r0 r1)
  qed
  show "\<forall>i j. i < j \<and> j < length snr \<and> 0 < ns ! i \<and> 0 < csf ! j \<longrightarrow> snr ! j \<le> snr ! i"
  proof (intro allI impI)
    fix i j assume ij: "i < j \<and> j < length snr \<and> 0 < ns ! i \<and> 0 < csf ! j"
    then have len: "i < length csf" "j < length csf" "i < length ns" "j < length ns"
      using lens by simp_all
    have c: "csf ! j \<le> csf ! i"
      using \<open>sorted_wrt (\<ge>) csf\<close> ij len by (simp add: sorted_wrt_iff_nth_less)
    have n: "ns ! i \<le> ns ! j"
      using \<open>sorted_wrt (\<le>) ns\<close> ij len by (simp add: sorted_wrt_iff_nth_less)
    have "ln (csf ! j) \<le> ln (csf ! i)" "ln (ns ! i) \<le> ln (ns ! j)"
      using c n ij by simp_all
    then have "rnd (ln (csf ! j)) \<le> rnd (ln (csf ! i))" "rnd (ln (ns ! i)) \<le> rnd (ln (ns ! j))"
      by (simp_all add: mono)
    then have "rnd (rnd (ln (csf ! j)) - rnd (ln (ns ! j)))
        \<le> rnd (rnd (ln (csf ! i)) - rnd (ln (ns ! i)))"
      by (intro mono) simp
    then show "snr ! j \<le> snr ! i" using len ij by (simp add: fields(4))
  qed
qed

text \<open>Rates close to 1 for which the last noise standard deviation is exactly 1.\<close>

lemma saturated_values:
  "round_to float32 (1 - 1 / 2 ^ 23) = 1 - 1 / 2 ^ 23"
  "round_to float32 (1 - 1 / 2 ^ 24) = 1 - 1 / 2 ^ 24"
  "round_to float32 ((1 - 1 / 2 ^ 23) * (1 - 1 / 2 ^ 23)) = 1 - 1 / 2 ^ 22"
  "round_to float32 ((1 - 1 / 2 ^ 24) * (1 - 1 / 2 ^ 24)) = 1 - 1 / 2 ^ 23"
  "round_to float32 (1 / 2 ^ 22) = 1 / 2 ^ 22"
  "round_to float32 (1 / 2 ^ 23) = 1 / 2 ^ 23"
  "round_to float32 (1 / 2 ^ 45) = 1 / 2 ^ 45"
  "round_to float64 (1 / 2 ^ 22) = 1 / 2 ^ 22"
  "round_to float64 (1 / 2 ^ 45) = 1 / 2 ^ 45"
  "round_to float32 (1 - 1 / 2 ^ 22) = 1 - 1 / 2 ^ 22"
  "round_to float32 (1 - 1 / 2 ^ 45) = 1"
proof -
  show "round_to float32 (1 - 1 / 2 ^ 23) = 1 - 1 / 2 ^ 23"
    using round32_dyadic [of 8388607 23] by simp
  show "round_to float32 (1 - 1 / 2 ^ 24) = 1 - 1 / 2 ^ 24"
    using round32_dyadic [of 16777215 24] by simp
  show "round_to float32 ((1 - 1 / 2 ^ 23) * (1 - 1 / 2 ^ 23)) = 1 - 1 / 2 ^ 22"
    using round32_below_one [of "(1 - 1 / 2 ^ 23) * (1 - 1 / 2 ^ 23)" 16777212] by simp
  show "round_to float32 ((1 - 1 / 2 ^ 24) * (1 - 1 / 2 ^ 24)) = 1 - 1 / 2 ^ 23"
    using round32_below_one [of "(1 - 1 / 2 ^ 24) * (1 - 1 / 2 ^ 24)" 16777214] by simp
  show "round_to float32 (1 / 2 ^ 22) = 1 / 2 ^ 22"
    using round32_dyadic [of 1 22] by simp
  show "round_to float32 (1 / 2 ^ 23) = 1 / 2 ^ 23"
    using round32_dyadic [of 1 23] by simp
  show "round_to float32 (1 / 2 ^ 45) = 1 / 2 ^ 45"
    using round32_dyadic [of 1 45] by simp
  show "round_to float64 (1 / 2 ^ 22) = 1 / 2 ^ 22"
    using round64_dyadic [of 1 22] by simp
  show "round_to float64 (1 / 2 ^ 45) = 1 / 2 ^ 45"
    using round64_dyadic [of 1 45] by simp
  show "round_to float32 (1 - 1 / 2 ^ 22) = 1 - 1 / 2 ^ 22"
    using round32_dyadic [of 4194303 22] by simp
  show "round_to float32 (1 - 1 / 2 ^ 45) = 1"
    using round32_below_one [of "1 - 1 / 2 ^ 45" 16777216] by simp
qed

lemma saturated_arrays:
  "schedule_arrays (round_to float64) (round_to float32) (1 - 1 / 2 ^ 23) (1 - 1 / 2 ^ 24) 2 =
     Inr ([1 / 2 ^ 22, 1 / 2 ^ 23],
          [round_to float32 (sqrt (1 / 2 ^ 22)), round_to float32 (sqrt (1 / 2 ^ 45))],
          [round_to float32 (sqrt (1 - 1 / 2 ^ 22)), 1],
          [round_to float32 (round_to float32 (ln (round_to float32 (sqrt (1 / 2 ^ 22))))
             - round_to float32 (ln (round_to float32 (sqrt (1 - 1 / 2 ^ 22))))),
           round_to float32 (round_to float32 (ln (round_to float32 (sqrt (1 / 2 ^ 45))))
             - round_to float32 (ln 1))])"
proof -
  have ar: "1 - (1 - 1 / 2 ^ 22) = (1 / 2 ^ 22 :: real)" "1 - (1 - 1 / 2 ^ 23) = (1 / 2 ^ 23 :: real)"
    "1 * (1 / 2 ^ 22) = (1 / 2 ^ 22 :: real)" "1 / 2 ^ 22 * (1 / 2 ^ 23) = (1 / 2 ^ 45 :: real)"
    "sqrt 1 = 1"
    by simp_all
  have lin: "torch_linspace (round_to float32) (1 - 1 / 2 ^ 23) (1 - 1 / 2 ^ 24) 2
      = Inr [1 - 1 / 2 ^ 23, 1 - 1 / 2 ^ 24]"
    by (simp only: torch_linspace_two [of "round_to float32", OF round_to_zero round_to_idem]
        saturated_values)
  show ?thesis
    unfolding schedule_arrays_def lin bind_err_Inr Let_def cumprod_def
    by (simp only: list.map cumprod_from.simps saturated_values ar round_to_one zip_Cons_Cons
        zip_Nil prod.case)
qed

text \<open>The two constructed schedulers, and the float32 invariants of every
  constructed scheduler.\<close>

lemma generate_timesteps_2_1: "generate_timesteps 2 1 = Inr [1]"
  by code_simp

lemma two_step_scheduler_facts:
  "Scheduler_init torch_device generate_timesteps 2 3 (1 / 16) (1 / 4) ''cpu'' float32
     = Inr two_step_scheduler"
  "length (noise_std two_step_scheduler) = 3"
  using Scheduler_init_returns [where Device = torch_device and dev = "''cpu''"
      and dt = float32, OF torch_device_cpu, of "1 / 16" "1 / 4" 3 generate_timesteps 2 "[2, 1]"]
    timesteps_3_2
  by (auto simp: two_step_scheduler_def)

lemma saturated_rates:
  "sqrt ((1 - 1 / 2 ^ 23) ^ 2) = 1 - 1 / 2 ^ 23" "sqrt ((1 - 1 / 2 ^ 24) ^ 2) = 1 - 1 / 2 ^ 24"
  "round_to float64 (1 - 1 / 2 ^ 23) = 1 - 1 / 2 ^ 23"
  "round_to float64 (1 - 1 / 2 ^ 24) = 1 - 1 / 2 ^ 24"
proof -
  show "sqrt ((1 - 1 / 2 ^ 23) ^ 2) = 1 - 1 / 2 ^ 23" by (simp only: real_sqrt_abs) simp
  show "sqrt ((1 - 1 / 2 ^ 24) ^ 2) = 1 - 1 / 2 ^ 24" by (simp only: real_sqrt_abs) simp
  show "round_to float64 (1 - 1 / 2 ^ 23) = 1 - 1 / 2 ^ 23"
    using round64_dyadic [of 8388607 23] by simp
  show "round_to float64 (1 - 1 / 2 ^ 24) = 1 - 1 / 2 ^ 24"
    using round64_dyadic [of 16777215 24] by simp
qed

lemma saturated_scheduler_facts:
  "Scheduler_init torch_device generate_timesteps 1 2 ((1 - 1 / 2 ^ 23) ^ 2)
     ((1 - 1 / 2 ^ 24) ^ 2) ''cpu'' float32 = Inr saturated_scheduler"
  "noise_std saturated_scheduler = [round_to float32 (sqrt (1 - 1 / 2 ^ 22)), 1]"
  "cumulative_scale_factors saturated_scheduler
     = [round_to float32 (sqrt (1 / 2 ^ 22)), round_to float32 (sqrt (1 / 2 ^ 45))]"
proof -
  have r: "(0::real) \<le> (1 - 1 / 2 ^ 23) ^ 2" "(0::real) \<le> (1 - 1 / 2 ^ 24) ^ 2" by simp_all
  obtain s where s: "Scheduler_init torch_device generate_timesteps 1 2 ((1 - 1 / 2 ^ 23) ^ 2)
     ((1 - 1 / 2 ^ 24) ^ 2) ''cpu'' float32 = Inr s"
    using Scheduler_init_returns [where Device = torch_device and dev = "''cpu''"
        and dt = float32, OF torch_device_cpu r, of 2 generate_timesteps 1 "[1]"]
      generate_timesteps_2_1
    by auto
  then show 1: "Scheduler_init torch_device generate_timesteps 1 2 ((1 - 1 / 2 ^ 23) ^ 2)
     ((1 - 1 / 2 ^ 24) ^ 2) ''cpu'' float32 = Inr saturated_scheduler"
    by (simp add: saturated_scheduler_def)
  from Scheduler_init_arrays [OF 1 r]
  have "schedule_arrays (round_to float64) (round_to float32) (1 - 1 / 2 ^ 23) (1 - 1 / 2 ^ 24) 2
      = Inr (scale_factors saturated_scheduler, cumulative_scale_factors saturated_scheduler,
             noise_std saturated_scheduler, signal_to_noise_ratios saturated_scheduler)"
    by (simp only: saturated_rates acc_type_def dtype.case)
  then show "noise_std saturated_scheduler = [round_to float32 (sqrt (1 - 1 / 2 ^ 22)), 1]"
    "cumulative_scale_factors saturated_scheduler
       = [round_to float32 (sqrt (1 / 2 ^ 22)), round_to float32 (sqrt (1 / 2 ^ 45))]"
    unfolding saturated_arrays by simp_all
qed

lemma Scheduler_init_weak:
  assumes r: "0 \<le> r1" "r1 \<le> r2" "r2 \<le> 1"
    and s: "Scheduler_init Device generate n t r1 r2 dev float32 = Inr s"
  shows "sorted_wrt (\<ge>) (cumulative_scale_factors s)"
    and "\<forall>v \<in> set (cumulative_scale_factors s). 0 \<le> v \<and> v \<le> 1"
    and "sorted_wrt (\<le>) (noise_std s)"
    and "\<forall>v \<in> set (noise_std s). 0 \<le> v \<and> v \<le> 1"
    and "\<forall>i j. i < j \<and> j < length (signal_to_noise_ratios s) \<and> 0 < noise_std s ! i
           \<and> 0 < cumulative_scale_factors s ! j
           \<longrightarrow> signal_to_noise_ratios s ! j \<le> signal_to_noise_ratios s ! i"
proof -
  have r2: "0 \<le> r2" using r by simp
  have ab: "0 \<le> round_to float64 (sqrt r1)"
    "round_to float64 (sqrt r1) \<le> round_to float64 (sqrt r2)"
    "round_to float64 (sqrt r2) \<le> 1"
    using round_to_mono [of 0 "sqrt r1" float64] round_to_mono [of "sqrt r1" "sqrt r2" float64]
      round_to_mono [of "sqrt r2" 1 float64] r
    by simp_all
  have arrays: "schedule_arrays (float_round 53 (- 1022)) (float_round 24 (- 126))
      (round_to float64 (sqrt r1)) (round_to float64 (sqrt r2)) t
      = Inr (scale_factors s, cumulative_scale_factors s, noise_std s, signal_to_noise_ratios s)"
    using Scheduler_init_arrays [OF s r(1) r2]
    by (simp add: acc_type_def round_to_def [abs_def] precision_def min_exponent_def)
  note w = schedule_arrays_weak [OF _ _ _ _ ab arrays]
  show "sorted_wrt (\<ge>) (cumulative_scale_factors s)" by (rule w(2)) simp_all
  show "\<forall>v \<in> set (cumulative_scale_factors s). 0 \<le> v \<and> v \<le> 1" by (rule w(3)) simp_all
  show "sorted_wrt (\<le>) (noise_std s)" by (rule w(4)) simp_all
  show "\<forall>v \<in> set (noise_std s). 0 \<le> v \<and> v \<le> 1" by (rule w(5)) simp_all
  show "\<forall>i j. i < j \<and> j < length (signal_to_noise_ratios s) \<and> 0 < noise_std s ! i
           \<and> 0 < cumulative_scale_factors s ! j
           \<longrightarrow> signal_to_noise_ratios s ! j \<le> signal_to_noise_ratios s ! i"
    by (rule w(6)) simp_all
qed

subsection \<open>Precision transfer\<close>

text \<open>The conversion of \<^verbatim>\<open>to\<close> rounds every value to a nearest number of the dtype.\<close>

lemma Scheduler_to_dtype:
  "Scheduler_to Device s None (Some dt) =
     Inr (s\<lparr>dtype := dt,
            scale_factors := map (round_to dt) (scale_factors s),
            cumulative_scale_factors := map (round_to dt) (cumulative_scale_factors s),
            noise_std := map (round_to dt) (noise_std s),
            signal_to_noise_ratios := map (round_to dt) (signal_to_noise_ratios s)\<rparr>)"
  by (simp add: Scheduler_to_def Let_def)

lemma round_to_nearest_representable:
  "\<bar>v\<bar> \<le> largest dt \<Longrightarrow> nearest_representable dt v (round_to dt v)"
  by (simp add: nearest_representable_def round_to_representable round_to_nearest)

lemma map_round_to_nearest:
  "finite_in dt xs \<Longrightarrow> list_all2 (nearest_representable dt) xs (map (round_to dt) xs)"
  by (simp add: finite_in_def list_all2_conv_all_nth round_to_nearest_representable)

lemma map_round_to_idem: "map (round_to dt) (map (round_to dt) xs) = map (round_to dt) xs"
  by simp

lemma round16_tenth: "round_to float16 (13421773 / 2 ^ 27) = 819 / 2 ^ 13"
proof -
  have e: "float_round 11 (- 14) (13421773 / 2 ^ 27) = of_int 1638 * 2 powi (- 4 - int 11 + 1)"
    by (intro float_round_eval) (simp_all add: power_int_minus field_simps)
  have v: "of_int 1638 * 2 powi (- 4 - int 11 + 1) = (819 / 2 ^ 13 :: real)"
    by (simp add: power_int_minus)
  show ?thesis
    by (simp only: round_to_def precision_def min_exponent_def dtype.case e v)
qed

lemma round16_tenth_numeral: "round_to float16 (13421773 / 134217728) = 819 / 8192"
  using round16_tenth by simp

lemma largest_float16: "largest float16 = 65504"
  by (simp add: largest_def precision_def max_exponent_def)

subsection \<open>Noise injection\<close>

text \<open>The value of \<^verbatim>\<open>add_noise\<close>, and its behaviour at steps outside \<open>0 .. N - 1\<close>.\<close>

lemma add_noise_value:
  assumes ok: "schedule_ok s" and step: "0 \<le> step" "step < int (length (timesteps s))"
    and x: "wf_tensor x" and n: "wf_tensor noise" and sh: "shape noise = shape x"
    and rank: "2 \<le> length (shape x)"
  shows "add_noise s x noise step =
     (let t = nat (timesteps s ! nat step)
      in Inr \<lparr>shape = shape x,
              data = map2 (spec_add_noise (cumulative_scale_factors s ! t) (noise_std s ! t))
                       (data x) (data noise)\<rparr>)"
proof -
  define t where "t = nat (timesteps s ! nat step)"
  note r = schedule_ok_timestep [OF ok step]
  have len: "length (data noise) = length (data x)" "length (data x) = prod_list (shape x)"
    using x n sh by (simp_all add: wf_tensor_def)
  have 1: "tensor_item (timesteps s) step = Inr (timesteps s ! nat step)"
    using step by (simp add: tensor_item_in_range)
  have 2: "broadcast_op (*) (single 2 (cumulative_scale_factors s ! t)) x
      = Inr \<lparr>shape = shape x, data = map ((*) (cumulative_scale_factors s ! t)) (data x)\<rparr>"
    using single_op_tensor [OF x rank] .
  have 3: "broadcast_op (*) (single 2 (noise_std s ! t)) noise
      = Inr \<lparr>shape = shape x, data = map ((*) (noise_std s ! t)) (data noise)\<rparr>"
    using single_op_tensor [OF n, of 2] rank sh by simp
  have 4: "broadcast_op (+)
        \<lparr>shape = shape x, data = map ((*) (cumulative_scale_factors s ! t)) (data x)\<rparr>
        \<lparr>shape = shape x, data = map ((*) (noise_std s ! t)) (data noise)\<rparr>
      = Inr \<lparr>shape = shape x,
             data = map2 (+) (map ((*) (cumulative_scale_factors s ! t)) (data x))
                      (map ((*) (noise_std s ! t)) (data noise))\<rparr>"
    using len by (intro tensor_op_tensor) simp_all
  have 5: "map2 (+) (map ((*) (cumulative_scale_factors s ! t)) (data x))
                      (map ((*) (noise_std s ! t)) (data noise))
      = map2 (spec_add_noise (cumulative_scale_factors s ! t) (noise_std s ! t))
          (data x) (data noise)"
    by (rule nth_equalityI) (simp_all add: spec_add_noise_def)
  have "add_noise s x noise step =
      Inr \<lparr>shape = shape x,
             data = map2 (+) (map ((*) (cumulative_scale_factors s ! t)) (data x))
                      (map ((*) (noise_std s ! t)) (data noise))\<rparr>"
    unfolding add_noise_def Let_def
    by (simp only: 1 bind_err_Inr tensor_index_single0 r unsqueeze_last_single
        numeral_2_eq_2 [symmetric] t_def [symmetric] 2 3 4)
  then show ?thesis
    unfolding Let_def t_def [symmetric] 5 .
qed

lemma add_noise_rank_one:
  "add_noise two_step_solver tensor_2 tensor_2 0 =
     Inr \<lparr>shape = [1, 2],
          data = [cumulative_scale_factors two_step_solver ! 2 * 1
                    + noise_std two_step_solver ! 2 * 1,
                  cumulative_scale_factors two_step_solver ! 2 * 2
                    + noise_std two_step_solver ! 2 * 2]\<rparr>"
  by (simp add: add_noise_def two_step_solver_facts tensor_item_def py_index_def tensor_index_single0
      unsqueeze_last_def single_def tensor_2_def broadcast_op_def broadcast_shapes_def
      pad_shape_def Let_def numeral_2_eq_2 upt_rec)

lemma add_noise_index_error:
  "int (length (timesteps s)) \<le> step \<or> step < - int (length (timesteps s)) \<Longrightarrow>
   add_noise s x noise step
     = Inl (if - (2 ^ 63) \<le> step \<and> step < 2 ^ 63 then IndexError else ValueError)"
  by (simp add: add_noise_def tensor_item_outside)

lemma add_noise_negative_step:
  "- int (length (timesteps s)) \<le> step \<Longrightarrow> step < 0 \<Longrightarrow>
   add_noise s x noise step = add_noise s x noise (step + int (length (timesteps s)))"
  by (simp add: add_noise_def tensor_item_wraps)

subsection \<open>The update formulas\<close>

text \<open>The data estimate and the two updates, elementwise.\<close>

lemma estimate_denoised_data_value:
  assumes ok: "schedule_ok s" and step: "0 \<le> step" "step < int (length (timesteps s))"
    and x: "wf_tensor x" and n: "wf_tensor noise" and sh: "shape noise = shape x"
  shows "estimate_denoised_data s x noise step =
     Inr \<lparr>shape = shape x,
          data = map2 (spec_data_estimate (noise_std s ! nat (timesteps s ! nat step))
                         (cumulative_scale_factors s ! nat (timesteps s ! nat step)))
                   (data x) (data noise)\<rparr>"
proof -
  define t where "t = timesteps s ! nat step"
  note r = schedule_ok_timestep [OF ok step, folded t_def]
  have len: "length (data noise) = length (data x)"
    using x n sh by (simp add: wf_tensor_def)
  have 1: "tensor_item (timesteps s) step = Inr t"
    using step by (simp add: tensor_item_in_range t_def)
  have 2: "broadcast_op (*) (scalar_tensor (noise_std s ! nat t)) noise
         = Inr \<lparr>shape = shape x, data = map ((*) (noise_std s ! nat t)) (data noise)\<rparr>"
    using n sh by (simp add: scalar_op_tensor)
  have 3: "broadcast_op (-) x \<lparr>shape = shape x, data = map ((*) (noise_std s ! nat t)) (data noise)\<rparr>
         = Inr \<lparr>shape = shape x,
                data = map2 (-) (data x) (map ((*) (noise_std s ! nat t)) (data noise))\<rparr>"
    using x n sh by (subst broadcast_op_same_shape) (simp_all add: wf_tensor_def)
  have 4: "broadcast_op (/) \<lparr>shape = shape x,
                data = map2 (-) (data x) (map ((*) (noise_std s ! nat t)) (data noise))\<rparr>
              (scalar_tensor (cumulative_scale_factors s ! nat t))
         = Inr \<lparr>shape = shape x,
                data = map (\<lambda>v. v / cumulative_scale_factors s ! nat t)
                  (map2 (-) (data x) (map ((*) (noise_std s ! nat t)) (data noise)))\<rparr>"
    using x len by (subst tensor_op_scalar) (simp_all add: wf_tensor_def)
  have 5: "map (\<lambda>v. v / cumulative_scale_factors s ! nat t)
                  (map2 (-) (data x) (map ((*) (noise_std s ! nat t)) (data noise)))
         = map2 (spec_data_estimate (noise_std s ! nat t) (cumulative_scale_factors s ! nat t))
             (data x) (data noise)"
    by (rule nth_equalityI) (simp_all add: spec_data_estimate_def)
  have "estimate_denoised_data s x noise step =
     Inr \<lparr>shape = shape x,
          data = map (\<lambda>v. v / cumulative_scale_factors s ! nat t)
                  (map2 (-) (data x) (map ((*) (noise_std s ! nat t)) (data noise)))\<rparr>"
    unfolding estimate_denoised_data_def
    by (simp only: 1 tensor_index_scalar r 2 3 4 bind_err_Inr)
  from this [unfolded 5] show ?thesis
    unfolding t_def .
qed

lemma estimate_index_error:
  "int (length (timesteps s)) \<le> step \<or> step < - int (length (timesteps s)) \<Longrightarrow>
   estimate_denoised_data s x noise step
     = Inl (if - (2 ^ 63) \<le> step \<and> step < 2 ^ 63 then IndexError else ValueError)"
  by (simp add: estimate_denoised_data_def tensor_item_outside)

lemma estimate_negative_step:
  "- int (length (timesteps s)) \<le> step \<Longrightarrow> step < 0 \<Longrightarrow>
   estimate_denoised_data s x noise step
     = estimate_denoised_data s x noise (step + int (length (timesteps s)))"
  by (simp add: estimate_denoised_data_def tensor_item_wraps)

lemma first_order_formula_value:
  assumes x: "wf_tensor x" and d: "wf_tensor d" and sh: "shape d = shape x"
    and k: "k \<le> length (shape x)"
  shows
    "bind_err (broadcast_op (-) (single k snr_p) (single 0 snr_c)) (\<lambda>d2.
       let exp_factor = tensor_map exp (tensor_map uminus d2)
       in bind_err (broadcast_op (/) (single k ns_p) (single 0 ns_c)) (\<lambda>r.
          bind_err (broadcast_op (*) r x) (\<lambda>a.
          bind_err (broadcast_op (*) (single k csf_p)
                      (tensor_map (\<lambda>v. v - 1) exp_factor)) (\<lambda>c.
          bind_err (broadcast_op (*) c d) (\<lambda>b.
            broadcast_op (-) a b)))))
     = Inr \<lparr>shape = shape x,
            data = map2 (spec_first_order snr_p snr_c ns_p ns_c csf_p) (data x) (data d)\<rparr>"
proof -
  have len: "length (data x) = prod_list (shape x)" "length (data d) = prod_list (shape x)"
    using x d sh by (simp_all add: wf_tensor_def)
  have "map2 (-) (map ((*) (ns_p / ns_c)) (data x))
                 (map ((*) (csf_p * (exp (snr_c - snr_p) - 1))) (data d))
          = map2 (spec_first_order snr_p snr_c ns_p ns_c csf_p) (data x) (data d)"
    by (rule nth_equalityI) (simp_all add: spec_first_order_def)
  then show ?thesis
    by (simp add: single_op_single tensor_map_single single_op_tensor tensor_op_tensor
        x d k sh len)
qed

lemma first_order_update_value:
  assumes ok: "schedule_ok s" and step: "0 \<le> step" "step < int (length (timesteps s))"
    and x: "wf_tensor x" and d: "wf_tensor d" and sh: "shape d = shape x"
  shows "dpm_solver_first_order_update s x d step =
     (let c = nat (timesteps s ! nat step);
          p = nat (timesteps s ! nat (if step + 1 < int (length (timesteps s)) then step + 1 else 0))
      in Inr \<lparr>shape = shape x,
              data = map2 (spec_first_order (signal_to_noise_ratios s ! p)
                             (signal_to_noise_ratios s ! c) (noise_std s ! p) (noise_std s ! c)
                             (cumulative_scale_factors s ! p))
                       (data x) (data d)\<rparr>)"
proof -
  define j where "j = (if step < int (length (timesteps s)) - 1 then step + 1 else 0)"
  have j: "0 \<le> j" "j < int (length (timesteps s))"
    using step by (auto simp: j_def)
  have j': "(if step + 1 < int (length (timesteps s)) then step + 1 else 0) = j"
    by (auto simp: j_def)
  note rc = schedule_ok_timestep [OF ok step]
  note rp = schedule_ok_timestep [OF ok j]
  have 1: "tensor_item (timesteps s) step = Inr (timesteps s ! nat step)"
    using step by (simp add: tensor_item_in_range)
  have 2: "tensor_item (timesteps s) j = Inr (timesteps s ! nat j)"
    using j by (simp add: tensor_item_in_range)
  show ?thesis
    unfolding dpm_solver_first_order_update_def j_def [symmetric] j' Let_def
    by (simp only: 1 2 bind_err_Inr tensor_index_single0 rc rp
        first_order_formula_value [unfolded Let_def, OF x d sh] list.size le0)
qed

lemma first_order_negative_step:
  assumes "- int (length (timesteps s)) \<le> step" "step < 0"
  shows "dpm_solver_first_order_update s x d step
     = dpm_solver_first_order_update s x d (step + int (length (timesteps s)))"
proof -
  have 1: "tensor_item (timesteps s) step = tensor_item (timesteps s) (step + int (length (timesteps s)))"
    using assms by (simp add: tensor_item_wraps)
  have 2: "tensor_item (timesteps s) (if step < int (length (timesteps s)) - 1 then step + 1 else 0)
      = tensor_item (timesteps s)
          (if step + int (length (timesteps s)) < int (length (timesteps s)) - 1
           then step + int (length (timesteps s)) + 1 else 0)"
    using assms by (auto simp: tensor_item_def py_index_def Let_def ac_simps)
  show ?thesis
    unfolding dpm_solver_first_order_update_def 1 2 ..
qed

lemma code_second_order_eq_spec:
  "ns_p / ns_c * x - csf_p * (exp (- (snr_p - snr_c)) - 1) * c
     - 1 / 2 * (csf_p * (exp (- (snr_p - snr_c)) - 1))
       * ((c - n) / ((snr_c - snr_n) / (snr_p - snr_c)))
   = spec_second_order snr_p snr_c snr_n ns_p ns_c csf_p x c n"
  unfolding spec_second_order_def Let_def by (simp only: mult.assoc)

lemma second_order_formula_value:
  assumes hist: "estimated_data s = [dn, dc]"
    and x: "wf_tensor x" and dc: "wf_tensor dc" and dn: "wf_tensor dn"
    and sh: "shape dc = shape x" "shape dn = shape x"
    and k: "k \<le> length (shape x)"
    and idx: "tensor_index (signal_to_noise_ratios s) P = Inr (single k snr_p)"
      "tensor_index (cumulative_scale_factors s) P = Inr (single k csf_p)"
      "tensor_index (noise_std s) P = Inr (single k ns_p)"
      "tensor_index (signal_to_noise_ratios s) C = Inr (single 0 snr_c)"
      "tensor_index (noise_std s) C = Inr (single 0 ns_c)"
      "tensor_index (signal_to_noise_ratios s) N = Inr (single 0 snr_n)"
  shows "second_order_formula s P C N x =
     Inr \<lparr>shape = shape x,
          data = map (\<lambda>(xi, ci, ni). spec_second_order snr_p snr_c snr_n ns_p ns_c csf_p xi ci ni)
                   (zip (data x) (zip (data dc) (data dn)))\<rparr>"
proof -
  have len: "length (data x) = prod_list (shape x)" "length (data dc) = prod_list (shape x)"
    "length (data dn) = prod_list (shape x)"
    using x dc dn sh by (simp_all add: wf_tensor_def)
  define q where "q = (snr_c - snr_n) / (snr_p - snr_c)"
  define cc where "cc = csf_p * (exp (- (snr_p - snr_c)) - 1)"
  define DD where "DD = \<lparr>shape = shape x, data = map2 (-) (data dc) (data dn)\<rparr>"
  define ED where "ED = \<lparr>shape = shape x, data = map (\<lambda>v. v / q) (data DD)\<rparr>"
  define A where "A = \<lparr>shape = shape x, data = map ((*) (ns_p / ns_c)) (data x)\<rparr>"
  define B where "B = \<lparr>shape = shape x, data = map ((*) cc) (data dc)\<rparr>"
  define AB where "AB = \<lparr>shape = shape x, data = map2 (-) (data A) (data B)\<rparr>"
  define H where "H = \<lparr>shape = shape x, data = map ((*) (1 / 2 * cc)) (data ED)\<rparr>"
  have wf: "wf_tensor DD" "wf_tensor ED" "wf_tensor A" "wf_tensor B" "wf_tensor AB" "wf_tensor H"
    and shs: "shape DD = shape x" "shape ED = shape x" "shape A = shape x" "shape B = shape x"
      "shape AB = shape x" "shape H = shape x"
    by (simp_all add: DD_def ED_def A_def B_def AB_def H_def len)
  have h1: "broadcast_op (-) dc dn = Inr DD"
    using broadcast_op_same_shape [OF dc dn, of "(-)"] sh by (simp add: DD_def)
  have h2: "broadcast_op (-) (single 0 snr_c) (single 0 snr_n) = Inr (single 0 (snr_c - snr_n))"
    by (simp add: single_op_single)
  have h3: "broadcast_op (-) (single k snr_p) (single 0 snr_c) = Inr (single k (snr_p - snr_c))"
    by (simp add: single_op_single)
  have h4: "broadcast_op (/) (single 0 (snr_c - snr_n)) (single k (snr_p - snr_c)) = Inr (single k q)"
    by (simp add: single_op_single q_def)
  have h5: "broadcast_op (/) DD (single k q) = Inr ED"
    using tensor_op_single [OF wf(1), of k "(/)" q] k by (simp add: shs ED_def)
  have h6: "broadcast_op (/) (single k ns_p) (single 0 ns_c) = Inr (single k (ns_p / ns_c))"
    by (simp add: single_op_single)
  have h7: "broadcast_op (*) (single k (ns_p / ns_c)) x = Inr A"
    using single_op_tensor [OF x, of k "(*)" "ns_p / ns_c"] k by (simp add: A_def)
  have h8: "broadcast_op (*) (single k csf_p) (single k (exp (- (snr_p - snr_c)) - 1))
      = Inr (single k cc)"
    by (simp add: single_op_single cc_def)
  have h9: "broadcast_op (*) (single k cc) dc = Inr B"
    using single_op_tensor [OF dc, of k "(*)" cc] k sh by (simp add: B_def)
  have h10: "broadcast_op (-) A B = Inr AB"
    using broadcast_op_same_shape [OF wf(3) wf(4), of "(-)"] by (simp add: shs AB_def)
  have h11: "broadcast_op (*) (single k (1 / 2 * cc)) ED = Inr H"
    using single_op_tensor [OF wf(2), of k "(*)" "1 / 2 * cc"] k by (simp add: shs H_def)
  have h12: "broadcast_op (-) AB H
      = Inr \<lparr>shape = shape x, data = map2 (-) (data AB) (data H)\<rparr>"
    using broadcast_op_same_shape [OF wf(5) wf(6), of "(-)"] by (simp add: shs)
  have res: "map2 (-) (data AB) (data H)
      = map (\<lambda>(xi, ci, ni). spec_second_order snr_p snr_c snr_n ns_p ns_c csf_p xi ci ni)
          (zip (data x) (zip (data dc) (data dn)))"
  proof (rule nth_equalityI)
    show "length (map2 (-) (data AB) (data H))
        = length (map (\<lambda>(xi, ci, ni). spec_second_order snr_p snr_c snr_n ns_p ns_c csf_p xi ci ni)
          (zip (data x) (zip (data dc) (data dn))))"
      by (simp add: AB_def H_def ED_def DD_def A_def B_def len)
  next
    fix i assume "i < length (map2 (-) (data AB) (data H))"
    then have i: "i < prod_list (shape x)"
      by (simp add: AB_def H_def ED_def DD_def A_def B_def len)
    have "map2 (-) (data AB) (data H) ! i
        = ns_p / ns_c * data x ! i - cc * data dc ! i
          - 1 / 2 * cc * ((data dc ! i - data dn ! i) / q)"
      using i by (simp add: AB_def H_def ED_def DD_def A_def B_def len)
    also have "\<dots> = spec_second_order snr_p snr_c snr_n ns_p ns_c csf_p
        (data x ! i) (data dc ! i) (data dn ! i)"
      unfolding cc_def q_def by (rule code_second_order_eq_spec)
    finally show "map2 (-) (data AB) (data H) ! i
        = map (\<lambda>(xi, ci, ni). spec_second_order snr_p snr_c snr_n ns_p ns_c csf_p xi ci ni)
          (zip (data x) (zip (data dc) (data dn))) ! i"
      using i by (simp add: len)
  qed
  show ?thesis
    unfolding second_order_formula_def hist Let_def
    by (simp only: py_index_last_two idx bind_err_Inr tensor_map_single
        h1 h2 h3 h4 h5 h6 h7 h8 h9 h10 h11 h12 res)
qed

lemma second_order_timesteps_value:
  assumes "0 \<le> step" "step < int (length (timesteps s))"
  shows "second_order_timesteps s step =
     Inr (if step + 1 < int (length (timesteps s))
          then Idx0 (timesteps s ! nat (step + 1)) else Idx1 [0],
          Idx0 (timesteps s ! nat step),
          Idx0 (timesteps s ! nat (if step = 0 then int (length (timesteps s)) - 1 else step - 1)))"
proof -
  have cur: "tensor_item (timesteps s) step = Inr (timesteps s ! nat step)"
    using assms by (simp add: tensor_item_in_range)
  have nxt: "tensor_item (timesteps s) (step - 1)
      = Inr (timesteps s ! nat (if step = 0 then int (length (timesteps s)) - 1 else step - 1))"
  proof (cases "step = 0")
    case True
    have "tensor_item (timesteps s) (- 1) = py_index (timesteps s) (- 1)"
      using assms by (intro tensor_item_within) simp_all
    then show ?thesis using assms True by (simp add: py_index_def Let_def)
  next
    case False
    then show ?thesis using assms by (simp add: tensor_item_in_range)
  qed
  show ?thesis
  proof (cases "step + 1 < int (length (timesteps s))")
    case True
    then have "tensor_item (timesteps s) (step + 1) = Inr (timesteps s ! nat (step + 1))"
      using assms by (simp add: tensor_item_in_range)
    with True show ?thesis by (simp add: second_order_timesteps_def cur nxt)
  next
    case False
    then show ?thesis by (simp add: second_order_timesteps_def cur nxt)
  qed
qed

lemma second_order_update_value:
  assumes ok: "schedule_ok s" and step: "0 \<le> step" "step < int (length (timesteps s))"
    and hist: "estimated_data s = [dn, dc]"
    and x: "wf_tensor x" and dc: "wf_tensor dc" and dn: "wf_tensor dn"
    and sh: "shape dc = shape x" "shape dn = shape x"
    and rank: "shape x \<noteq> []"
  shows "multistep_dpm_solver_second_order_update s x step =
     (let p = (if step + 1 < int (length (timesteps s))
               then nat (timesteps s ! nat (step + 1)) else 0);
          c = nat (timesteps s ! nat step);
          n = nat (timesteps s ! nat (if step = 0 then int (length (timesteps s)) - 1 else step - 1))
      in Inr \<lparr>shape = shape x,
              data = map (\<lambda>(xi, ci, ni).
                            spec_second_order (signal_to_noise_ratios s ! p)
                              (signal_to_noise_ratios s ! c) (signal_to_noise_ratios s ! n)
                              (noise_std s ! p) (noise_std s ! c)
                              (cumulative_scale_factors s ! p) xi ci ni)
                       (zip (data x) (zip (data dc) (data dn)))\<rparr>)"
proof -
  define j where "j = (if step = 0 then int (length (timesteps s)) - 1 else step - 1)"
  have j: "0 \<le> j" "j < int (length (timesteps s))"
    using step by (auto simp: j_def)
  note rc = schedule_ok_timestep [OF ok step]
  note rn = schedule_ok_timestep [OF ok j]
  have C: "tensor_index (signal_to_noise_ratios s) (Idx0 (timesteps s ! nat step))
        = Inr (single 0 (signal_to_noise_ratios s ! nat (timesteps s ! nat step)))"
      "tensor_index (noise_std s) (Idx0 (timesteps s ! nat step))
        = Inr (single 0 (noise_std s ! nat (timesteps s ! nat step)))"
    using rc by (simp_all add: tensor_index_single0)
  have N: "tensor_index (signal_to_noise_ratios s) (Idx0 (timesteps s ! nat j))
        = Inr (single 0 (signal_to_noise_ratios s ! nat (timesteps s ! nat j)))"
    using rn by (simp add: tensor_index_single0)
  show ?thesis
  proof (cases "step + 1 < int (length (timesteps s))")
    case True
    then have p: "0 \<le> step + 1" "step + 1 < int (length (timesteps s))"
      using step by auto
    note rp = schedule_ok_timestep [OF ok p]
    have P: "tensor_index (signal_to_noise_ratios s) (Idx0 (timesteps s ! nat (step + 1)))
        = Inr (single 0 (signal_to_noise_ratios s ! nat (timesteps s ! nat (step + 1))))"
      "tensor_index (cumulative_scale_factors s) (Idx0 (timesteps s ! nat (step + 1)))
        = Inr (single 0 (cumulative_scale_factors s ! nat (timesteps s ! nat (step + 1))))"
      "tensor_index (noise_std s) (Idx0 (timesteps s ! nat (step + 1)))
        = Inr (single 0 (noise_std s ! nat (timesteps s ! nat (step + 1))))"
      using rp by (simp_all add: tensor_index_single0)
    show ?thesis
      using True
      by (simp add: multistep_dpm_solver_second_order_update_def Let_def
          second_order_timesteps_value [OF step] j_def [symmetric]
          second_order_formula_value [OF hist x dc dn sh _ P C N])
  next
    case False
    have ne: "noise_std s \<noteq> []" "cumulative_scale_factors s \<noteq> []"
      "signal_to_noise_ratios s \<noteq> []"
      using rc by auto
    have k: "1 \<le> length (shape x)"
      using rank by (cases "shape x") auto
    have P: "tensor_index (signal_to_noise_ratios s) (Idx1 [0])
        = Inr (single 1 (signal_to_noise_ratios s ! 0))"
      "tensor_index (cumulative_scale_factors s) (Idx1 [0])
        = Inr (single 1 (cumulative_scale_factors s ! 0))"
      "tensor_index (noise_std s) (Idx1 [0]) = Inr (single 1 (noise_std s ! 0))"
      using ne by (simp_all add: tensor_index_single1)
    show ?thesis
      using False
      by (simp add: multistep_dpm_solver_second_order_update_def Let_def
          second_order_timesteps_value [OF step] j_def [symmetric]
          second_order_formula_value [OF hist x dc dn sh k P C N])
  qed
qed

subsection \<open>The step operation\<close>

text \<open>What one call does to the solver, and what sequences of calls do.\<close>

lemma schedule_ok_history [simp]:
  "schedule_ok (s\<lparr>estimated_data := h\<rparr>) = schedule_ok s"
  "schedule_ok (s\<lparr>initial_steps := c\<rparr>) = schedule_ok s"
  by (simp_all add: schedule_ok_def)

lemma first_order_update_history [simp]:
  "dpm_solver_first_order_update (s\<lparr>estimated_data := h\<rparr>) x d step
     = dpm_solver_first_order_update s x d step"
  by (simp add: dpm_solver_first_order_update_def)

lemma estimate_history [simp]:
  "estimate_denoised_data (s\<lparr>estimated_data := h\<rparr>) x d step
     = estimate_denoised_data s x d step"
  by (simp add: estimate_denoised_data_def)

lemma second_order_update_counter [simp]:
  "multistep_dpm_solver_second_order_update (s\<lparr>initial_steps := c\<rparr>) x step
     = multistep_dpm_solver_second_order_update s x step"
  by (simp add: multistep_dpm_solver_second_order_update_def second_order_timesteps_def
      second_order_formula_def)

lemma deque_append_two: "length h = 2 \<Longrightarrow> deque_append 2 h d = [h ! 1, d]"
proof -
  assume "length h = 2"
  then obtain a b where "h = [a, b]"
    by (cases h; cases "tl h") auto
  then show ?thesis by (simp add: deque_append_def)
qed

lemma DPMSolver_call_estimate_raises:
  "estimate_denoised_data s x noise step = Inl e \<Longrightarrow> DPMSolver_call s x noise step = (s, Inl e)"
  by (simp add: DPMSolver_call_def)

lemma DPMSolver_call_first:
  assumes "estimate_denoised_data s x noise step = Inr d" "initial_steps s = 0"
  shows "snd (DPMSolver_call s x noise step) = dpm_solver_first_order_update s x d step"
  using assms by (simp add: DPMSolver_call_def Let_def split: sum.splits)

lemma DPMSolver_call_result:
  assumes "estimate_denoised_data s x noise step = Inr d"
  shows "snd (DPMSolver_call s x noise step) =
     (if initial_steps s = 0 then dpm_solver_first_order_update s x d step
      else multistep_dpm_solver_second_order_update
             (s\<lparr>estimated_data := deque_append 2 (estimated_data s) d\<rparr>) x step)"
proof (cases "initial_steps s = 0")
  case True
  then show ?thesis
    using assms
    by (cases "dpm_solver_first_order_update s x d step") (simp_all add: DPMSolver_call_def Let_def)
next
  case False
  then show ?thesis
    using assms
    by (cases "multistep_dpm_solver_second_order_update
             (s\<lparr>estimated_data := deque_append 2 (estimated_data s) d\<rparr>) x step")
      (simp_all add: DPMSolver_call_def Let_def)
qed

lemma DPMSolver_call_state:
  assumes "estimate_denoised_data s x noise step = Inr d"
  shows "fst (DPMSolver_call s x noise step) =
     (if isl (snd (DPMSolver_call s x noise step)) \<or> 2 \<le> initial_steps s
      then s\<lparr>estimated_data := deque_append 2 (estimated_data s) d\<rparr>
      else s\<lparr>estimated_data := deque_append 2 (estimated_data s) d,
             initial_steps := initial_steps s + 1\<rparr>)"
proof (cases "initial_steps s = 0")
  case True
  then show ?thesis
    using assms
    by (cases "dpm_solver_first_order_update s x d step") (simp_all add: DPMSolver_call_def Let_def)
next
  case False
  then show ?thesis
    using assms
    by (cases "multistep_dpm_solver_second_order_update
             (s\<lparr>estimated_data := deque_append 2 (estimated_data s) d\<rparr>) x step")
      (simp_all add: DPMSolver_call_def Let_def)
qed

lemma DPMSolver_call_counter:
  "initial_steps (fst (DPMSolver_call s x noise step)) =
     (if isl (snd (DPMSolver_call s x noise step)) \<or> 2 \<le> initial_steps s then initial_steps s
      else initial_steps s + 1)"
proof (cases "estimate_denoised_data s x noise step")
  case (Inl e)
  then show ?thesis by (simp add: DPMSolver_call_estimate_raises)
next
  case (Inr d)
  then show ?thesis by (simp add: DPMSolver_call_state)
qed

lemma DPMSolver_call_history:
  assumes "length (estimated_data s) = 2"
  shows "estimated_data (fst (DPMSolver_call s x noise step)) =
     (case estimate_denoised_data s x noise step of
        Inl e \<Rightarrow> estimated_data s
      | Inr d \<Rightarrow> [estimated_data s ! 1, d])"
proof (cases "estimate_denoised_data s x noise step")
  case (Inl e)
  then show ?thesis by (simp add: DPMSolver_call_estimate_raises)
next
  case (Inr d)
  then show ?thesis using assms by (simp add: DPMSolver_call_state deque_append_two)
qed

lemma DPMSolver_call_history_length:
  "length (estimated_data s) = 2 \<Longrightarrow>
   length (estimated_data (fst (DPMSolver_call s x noise step))) = 2"
  by (cases "estimate_denoised_data s x noise step") (simp_all add: DPMSolver_call_history)

lemma first_call_negative_step:
  assumes "- int (length (timesteps s)) \<le> step" "step < 0" "initial_steps s = 0"
  shows "DPMSolver_call s x noise step
     = DPMSolver_call s x noise (step + int (length (timesteps s)))"
proof (cases "estimate_denoised_data s x noise step")
  case (Inl e)
  then show ?thesis
    using assms estimate_negative_step [of s step x noise]
    by (simp add: DPMSolver_call_def)
next
  case (Inr d)
  then show ?thesis
    using assms estimate_negative_step [of s step x noise]
      first_order_negative_step [of s step x d]
    by (simp add: DPMSolver_call_def Let_def)
qed

lemma run_append:
  "run s (xs @ ys) =
     (fst (run (fst (run s xs)) ys), snd (run s xs) @ snd (run (fst (run s xs)) ys))"
  by (induction xs arbitrary: s) (auto simp: split_def Let_def)

lemma run_snd_length: "length (snd (run s calls)) = length calls"
  by (induction calls arbitrary: s) (auto simp: split_def Let_def)

lemma run_take_results: "snd (run s (take k calls)) = take k (snd (run s calls))"
proof -
  have "snd (run s (take k calls @ drop k calls))
      = snd (run s (take k calls)) @ snd (run (fst (run s (take k calls))) (drop k calls))"
    by (simp only: run_append snd_conv)
  then have "take k (snd (run s calls))
      = take k (snd (run s (take k calls)) @ snd (run (fst (run s (take k calls))) (drop k calls)))"
    by simp
  also have "\<dots> = snd (run s (take k calls))"
    by (simp add: run_snd_length min_def)
  finally show ?thesis by simp
qed

lemma run_nth_result:
  assumes "k < length calls" "calls ! k = (x, noise, step)"
  shows "snd (run s calls) ! k = snd (DPMSolver_call (fst (run s (take k calls))) x noise step)"
proof -
  have "calls = take k calls @ (x, noise, step) # drop (Suc k) calls"
    using assms by (metis id_take_nth_drop)
  then have "snd (run s calls)
      = snd (run s (take k calls))
        @ snd (run (fst (run s (take k calls))) ((x, noise, step) # drop (Suc k) calls))"
    by (metis run_append snd_conv)
  moreover have "length (snd (run s (take k calls))) = k"
    using assms(1) by (simp add: run_snd_length)
  ultimately show ?thesis
    by (simp add: nth_append split_def Let_def)
qed

lemma run_counter:
  assumes "0 \<le> initial_steps s" "\<forall>r \<in> set (snd (run s calls)). \<not> isl r"
  shows "initial_steps (fst (run s calls)) = min (initial_steps s + int (length calls)) 2
           \<or> (2 < initial_steps s \<and> initial_steps (fst (run s calls)) = initial_steps s)"
  using assms
proof (induction calls arbitrary: s)
  case Nil
  then show ?case by auto
next
  case (Cons c calls)
  obtain x noise step where c: "c = (x, noise, step)" by (cases c) auto
  define s1 where "s1 = fst (DPMSolver_call s x noise step)"
  have r: "\<not> isl (snd (DPMSolver_call s x noise step))"
    and rest: "\<forall>r \<in> set (snd (run s1 calls)). \<not> isl r"
    using Cons.prems(2) by (auto simp: c split_def Let_def s1_def)
  have c1: "initial_steps s1 = (if 2 \<le> initial_steps s then initial_steps s else initial_steps s + 1)"
    using r by (simp add: s1_def DPMSolver_call_counter)
  then have "0 \<le> initial_steps s1" using Cons.prems(1) by auto
  from Cons.IH [OF this rest] c1 Cons.prems(1)
  have "initial_steps (fst (run s1 calls)) = min (initial_steps s + int (length (c # calls))) 2
           \<or> (2 < initial_steps s \<and> initial_steps (fst (run s1 calls)) = initial_steps s)"
    by (auto simp: min_def split: if_splits)
  moreover have "fst (run s (c # calls)) = fst (run s1 calls)"
    by (simp add: c split_def Let_def s1_def)
  ultimately show ?case by simp
qed

lemma run_history_length:
  "length (estimated_data s) = 2 \<Longrightarrow> length (estimated_data (fst (run s calls))) = 2"
proof (induction calls arbitrary: s)
  case Nil
  then show ?case by simp
next
  case (Cons c calls)
  obtain x noise step where c: "c = (x, noise, step)" by (cases c) auto
  have "length (estimated_data (fst (DPMSolver_call s x noise step))) = 2"
    using Cons.prems by (rule DPMSolver_call_history_length)
  from Cons.IH [OF this] show ?case
    by (simp add: c split_def Let_def)
qed

lemma call_placeholder_step:
  assumes h: "length h = 2" and s: "length (estimated_data s) = 2"
    and tail: "initial_steps s \<noteq> 0 \<longrightarrow> h ! 1 = estimated_data s ! 1"
  shows "snd (DPMSolver_call (s\<lparr>estimated_data := h\<rparr>) x noise step)
           = snd (DPMSolver_call s x noise step)"
    and "\<exists>h'. fst (DPMSolver_call (s\<lparr>estimated_data := h\<rparr>) x noise step)
               = (fst (DPMSolver_call s x noise step))\<lparr>estimated_data := h'\<rparr>
           \<and> length h' = 2
           \<and> (initial_steps (fst (DPMSolver_call s x noise step)) \<noteq> 0 \<longrightarrow>
                h' ! 1 = estimated_data (fst (DPMSolver_call s x noise step)) ! 1)"
proof -
  let ?t = "s\<lparr>estimated_data := h\<rparr>"
  show res: "snd (DPMSolver_call ?t x noise step) = snd (DPMSolver_call s x noise step)"
  proof (cases "estimate_denoised_data s x noise step")
    case (Inl e)
    then show ?thesis by (simp add: DPMSolver_call_estimate_raises)
  next
    case (Inr d)
    then have t: "estimate_denoised_data ?t x noise step = Inr d" by simp
    show ?thesis
      using tail h s
      by (simp add: DPMSolver_call_result [OF Inr] DPMSolver_call_result [OF t]
          deque_append_two)
  qed
  show "\<exists>h'. fst (DPMSolver_call ?t x noise step)
               = (fst (DPMSolver_call s x noise step))\<lparr>estimated_data := h'\<rparr>
           \<and> length h' = 2
           \<and> (initial_steps (fst (DPMSolver_call s x noise step)) \<noteq> 0 \<longrightarrow>
                h' ! 1 = estimated_data (fst (DPMSolver_call s x noise step)) ! 1)"
  proof (cases "estimate_denoised_data s x noise step")
    case (Inl e)
    then have "fst (DPMSolver_call ?t x noise step)
        = (fst (DPMSolver_call s x noise step))\<lparr>estimated_data := h\<rparr>"
      by (simp add: DPMSolver_call_estimate_raises)
    moreover have "initial_steps (fst (DPMSolver_call s x noise step)) = initial_steps s"
      "estimated_data (fst (DPMSolver_call s x noise step)) = estimated_data s"
      using Inl by (simp_all add: DPMSolver_call_estimate_raises)
    ultimately show ?thesis
      using h tail by (intro exI [of _ h]) simp
  next
    case (Inr d)
    then have t: "estimate_denoised_data ?t x noise step = Inr d" by simp
    have "fst (DPMSolver_call ?t x noise step)
        = (fst (DPMSolver_call s x noise step))\<lparr>estimated_data := [h ! 1, d]\<rparr>"
      using h s res by (simp add: DPMSolver_call_state [OF Inr] DPMSolver_call_state [OF t]
          deque_append_two)
    moreover have "estimated_data (fst (DPMSolver_call s x noise step)) ! 1 = d"
      using s by (simp add: DPMSolver_call_history Inr)
    ultimately show ?thesis by auto
  qed
qed

lemma run_placeholders:
  assumes "length h = 2" "length (estimated_data s) = 2"
    "initial_steps s \<noteq> 0 \<longrightarrow> h ! 1 = estimated_data s ! 1"
  shows "snd (run (s\<lparr>estimated_data := h\<rparr>) calls) = snd (run s calls)"
  using assms
proof (induction calls arbitrary: s h)
  case Nil
  then show ?case by simp
next
  case (Cons c calls)
  obtain x noise step where c: "c = (x, noise, step)" by (cases c) auto
  define s1 where "s1 = fst (DPMSolver_call s x noise step)"
  from call_placeholder_step [OF Cons.prems, of x noise step]
  obtain h' where r: "snd (DPMSolver_call (s\<lparr>estimated_data := h\<rparr>) x noise step)
           = snd (DPMSolver_call s x noise step)"
    and h': "fst (DPMSolver_call (s\<lparr>estimated_data := h\<rparr>) x noise step)
               = s1\<lparr>estimated_data := h'\<rparr>" "length h' = 2"
          "initial_steps s1 \<noteq> 0 \<longrightarrow> h' ! 1 = estimated_data s1 ! 1"
    unfolding s1_def by blast
  have "length (estimated_data s1) = 2"
    unfolding s1_def using Cons.prems(2) by (rule DPMSolver_call_history_length)
  from Cons.IH [OF h'(2) this h'(3)]
  show ?case
    by (simp add: c split_def Let_def r h'(1) s1_def [symmetric])
qed

lemma valid_call_returns:
  assumes ok: "schedule_ok s" and len: "length (estimated_data s) = 2"
    and rank: "shape x \<noteq> []"
    and tail: "initial_steps s \<noteq> 0 \<longrightarrow>
        wf_tensor (estimated_data s ! 1) \<and> shape (estimated_data s ! 1) = shape x"
    and step: "0 \<le> step" "step < int (length (timesteps s))"
    and x: "wf_tensor x" and n: "wf_tensor noise" and sh: "shape noise = shape x"
  shows "\<not> isl (snd (DPMSolver_call s x noise step))"
    and "schedule_ok (fst (DPMSolver_call s x noise step))"
    and "timesteps (fst (DPMSolver_call s x noise step)) = timesteps s"
    and "length (estimated_data (fst (DPMSolver_call s x noise step))) = 2"
    and "0 \<le> initial_steps s \<longrightarrow> initial_steps (fst (DPMSolver_call s x noise step)) \<noteq> 0"
    and "wf_tensor (estimated_data (fst (DPMSolver_call s x noise step)) ! 1)"
    and "shape (estimated_data (fst (DPMSolver_call s x noise step)) ! 1) = shape x"
proof -
  define d where "d = \<lparr>shape = shape x,
      data = map2 (spec_data_estimate (noise_std s ! nat (timesteps s ! nat step))
                     (cumulative_scale_factors s ! nat (timesteps s ! nat step)))
               (data x) (data noise)\<rparr>"
  have lens: "length (data noise) = length (data x)" "length (data x) = prod_list (shape x)"
    using x n sh by (simp_all add: wf_tensor_def)
  have est: "estimate_denoised_data s x noise step = Inr d"
    unfolding d_def using ok step x n sh by (intro estimate_denoised_data_value)
  have d: "wf_tensor d" "shape d = shape x"
    using lens by (simp_all add: d_def)
  define s1 where "s1 = s\<lparr>estimated_data := deque_append 2 (estimated_data s) d\<rparr>"
  have h1: "estimated_data s1 = [estimated_data s ! 1, d]"
    using len by (simp add: s1_def deque_append_two)
  show res: "\<not> isl (snd (DPMSolver_call s x noise step))"
  proof (cases "initial_steps s = 0")
    case True
    then show ?thesis
      using first_order_update_value [OF ok step x d]
      by (simp add: DPMSolver_call_result [OF est] Let_def)
  next
    case False
    have "schedule_ok s1" "timesteps s1 = timesteps s"
      using ok by (simp_all add: s1_def)
    then have "\<not> isl (multistep_dpm_solver_second_order_update s1 x step)"
      using second_order_update_value [of s1 step "estimated_data s ! 1" d x] h1 step x d
        tail False rank
      by (simp add: Let_def)
    then show ?thesis
      using False by (simp add: DPMSolver_call_result [OF est] s1_def)
  qed
  have st: "fst (DPMSolver_call s x noise step) =
     (if 2 \<le> initial_steps s then s1 else s1\<lparr>initial_steps := initial_steps s + 1\<rparr>)"
    using res by (simp add: DPMSolver_call_state [OF est] s1_def)
  show "schedule_ok (fst (DPMSolver_call s x noise step))"
    using ok by (simp add: st s1_def)
  show "timesteps (fst (DPMSolver_call s x noise step)) = timesteps s"
    by (simp add: st s1_def)
  show "length (estimated_data (fst (DPMSolver_call s x noise step))) = 2"
    using h1 by (simp add: st)
  show "0 \<le> initial_steps s \<longrightarrow> initial_steps (fst (DPMSolver_call s x noise step)) \<noteq> 0"
    by (auto simp: st s1_def)
  show "wf_tensor (estimated_data (fst (DPMSolver_call s x noise step)) ! 1)"
    using h1 d by (simp add: st)
  show "shape (estimated_data (fst (DPMSolver_call s x noise step)) ! 1) = shape x"
    using h1 d by (simp add: st)
qed

lemma valid_calls_return:
  assumes "schedule_ok s" "length (estimated_data s) = 2" "sh \<noteq> []" "0 \<le> initial_steps s"
    and "initial_steps s \<noteq> 0 \<longrightarrow>
        wf_tensor (estimated_data s ! 1) \<and> shape (estimated_data s ! 1) = sh"
    and "\<forall>(x, noise, step) \<in> set calls.
           0 \<le> step \<and> step < int (length (timesteps s)) \<and> wf_tensor x \<and> wf_tensor noise
           \<and> shape x = sh \<and> shape noise = sh"
  shows "\<forall>r \<in> set (snd (run s calls)). \<not> isl r"
  using assms
proof (induction calls arbitrary: s)
  case Nil
  then show ?case by simp
next
  case (Cons c calls)
  obtain x noise step where c: "c = (x, noise, step)" by (cases c) auto
  have v: "0 \<le> step" "step < int (length (timesteps s))" "wf_tensor x" "wf_tensor noise"
    "shape x = sh" "shape noise = shape x"
    using Cons.prems(6) by (auto simp: c)
  define s1 where "s1 = fst (DPMSolver_call s x noise step)"
  have rank: "shape x \<noteq> []" using v(5) Cons.prems(3) by simp
  have tail: "initial_steps s \<noteq> 0 \<longrightarrow>
        wf_tensor (estimated_data s ! 1) \<and> shape (estimated_data s ! 1) = shape x"
    using Cons.prems(5) v(5) by simp
  note r = valid_call_returns [OF Cons.prems(1,2) rank tail v(1,2,3,4,6), folded s1_def]
  have c1: "0 \<le> initial_steps s1" "initial_steps s1 \<noteq> 0"
    using r(5) Cons.prems(4) r(1)
    by (auto simp: s1_def DPMSolver_call_counter)
  have "\<forall>r \<in> set (snd (run s1 calls)). \<not> isl r"
  proof (rule Cons.IH)
    show "schedule_ok s1" by (rule r(2))
    show "length (estimated_data s1) = 2" by (rule r(4))
    show "sh \<noteq> []" by (rule Cons.prems(3))
    show "0 \<le> initial_steps s1" by (rule c1(1))
    show "initial_steps s1 \<noteq> 0 \<longrightarrow>
        wf_tensor (estimated_data s1 ! 1) \<and> shape (estimated_data s1 ! 1) = sh"
      using r(6,7) v(5) by simp
    show "\<forall>(x, noise, step) \<in> set calls.
           0 \<le> step \<and> step < int (length (timesteps s1)) \<and> wf_tensor x \<and> wf_tensor noise
           \<and> shape x = sh \<and> shape noise = sh"
      using Cons.prems(6) r(3) by auto
  qed
  then show ?case
    using r(1) by (simp add: c split_def Let_def s1_def)
qed

lemma two_calls_return: "\<forall>r \<in> set (snd (run two_step_solver two_calls)). \<not> isl r"
proof (rule valid_calls_return [where sh = "[1, 2]"])
  show "schedule_ok two_step_solver" by (rule schedule_ok_two_step_solver)
  show "length (estimated_data two_step_solver) = 2" by (simp add: two_step_solver_facts)
  show "[1, 2 :: nat] \<noteq> []" by simp
  show "0 \<le> initial_steps two_step_solver" by (simp add: two_step_solver_facts)
  show "initial_steps two_step_solver \<noteq> 0 \<longrightarrow>
        wf_tensor (estimated_data two_step_solver ! 1)
        \<and> shape (estimated_data two_step_solver ! 1) = [1, 2]"
    by (simp add: two_step_solver_facts)
  show "\<forall>(x, noise, step) \<in> set two_calls.
           0 \<le> step \<and> step < int (length (timesteps two_step_solver)) \<and> wf_tensor x
           \<and> wf_tensor noise \<and> shape x = [1, 2] \<and> shape noise = [1, 2]"
    by (simp add: two_calls_def two_step_solver_facts tensor_1x2_def wf_tensor_def)
qed

lemma run_counter_returned:
  assumes "0 \<le> initial_steps s" "initial_steps s \<le> 2"
  shows "initial_steps (fst (run s calls))
     = min (initial_steps s + int (length (filter (\<lambda>r. \<not> isl r) (snd (run s calls))))) 2"
  using assms
proof (induction calls arbitrary: s)
  case Nil
  then show ?case by simp
next
  case (Cons c calls)
  obtain x noise step where c: "c = (x, noise, step)" by (cases c) auto
  define s1 where "s1 = fst (DPMSolver_call s x noise step)"
  define r where "r = snd (DPMSolver_call s x noise step)"
  have c1: "initial_steps s1 =
      (if isl r \<or> 2 \<le> initial_steps s then initial_steps s else initial_steps s + 1)"
    by (simp add: s1_def r_def DPMSolver_call_counter)
  then have "0 \<le> initial_steps s1" "initial_steps s1 \<le> 2"
    using Cons.prems by (auto split: if_splits)
  from Cons.IH [OF this]
  have IH: "initial_steps (fst (run s1 calls))
     = min (initial_steps s1 + int (length (filter (\<lambda>r. \<not> isl r) (snd (run s1 calls))))) 2" .
  have run: "fst (run s (c # calls)) = fst (run s1 calls)"
    "snd (run s (c # calls)) = r # snd (run s1 calls)"
    by (simp_all add: c split_def Let_def s1_def r_def)
  show ?case
    unfolding run IH c1 using Cons.prems by (auto simp: min_def)
qed

lemma run_first_raises:
  assumes "estimate_denoised_data s x noise step = Inl e"
  shows "run s ((x, noise, step) # calls) = (fst (run s calls), Inl e # snd (run s calls))"
  using assms by (simp add: DPMSolver_call_estimate_raises split_def Let_def)

lemma three_results:
  assumes "length rs = 3" "\<forall>r \<in> set rs. \<not> isl r"
  shows "\<exists>a b c. rs = [Inr a, Inr b, Inr c]"
proof -
  obtain r1 r2 r3 where rs: "rs = [r1, r2, r3]"
    using assms(1) by (cases rs; cases "tl rs"; cases "tl (tl rs)") auto
  then have "\<not> isl r1" "\<not> isl r2" "\<not> isl r3" using assms(2) by simp_all
  then obtain a b c where "r1 = Inr a" "r2 = Inr b" "r3 = Inr c"
    by (cases r1; cases r2; cases r3) auto
  then show ?thesis using rs by simp
qed

lemma four_calls_results:
  "fst (run two_step_solver (take 1 four_calls)) = two_step_solver"
  "\<exists>a b c. snd (run two_step_solver four_calls) = [Inl IndexError, Inr a, Inr b, Inr c]"
proof -
  have bad: "estimate_denoised_data two_step_solver tensor_1x2 tensor_1x2 5 = Inl IndexError"
    using estimate_index_error [of two_step_solver 5 tensor_1x2 tensor_1x2]
    by (simp add: two_step_solver_facts)
  show "fst (run two_step_solver (take 1 four_calls)) = two_step_solver"
    by (simp add: four_calls_def DPMSolver_call_estimate_raises [OF bad])
  have ok: "\<forall>r \<in> set (snd (run two_step_solver (tl four_calls))). \<not> isl r"
  proof (rule valid_calls_return [where sh = "[1, 2]"])
    show "schedule_ok two_step_solver" by (rule schedule_ok_two_step_solver)
    show "length (estimated_data two_step_solver) = 2" by (simp add: two_step_solver_facts)
    show "[1, 2 :: nat] \<noteq> []" by simp
    show "0 \<le> initial_steps two_step_solver" by (simp add: two_step_solver_facts)
    show "initial_steps two_step_solver \<noteq> 0 \<longrightarrow>
        wf_tensor (estimated_data two_step_solver ! 1)
        \<and> shape (estimated_data two_step_solver ! 1) = [1, 2]"
      by (simp add: two_step_solver_facts)
    show "\<forall>(x, noise, step) \<in> set (tl four_calls).
           0 \<le> step \<and> step < int (length (timesteps two_step_solver)) \<and> wf_tensor x
           \<and> wf_tensor noise \<and> shape x = [1, 2] \<and> shape noise = [1, 2]"
      by (simp add: four_calls_def two_step_solver_facts tensor_1x2_def wf_tensor_def)
  qed
  have "length (snd (run two_step_solver (tl four_calls))) = 3"
    by (simp only: run_snd_length) (simp add: four_calls_def)
  from three_results [OF this ok] obtain a b c where
    "snd (run two_step_solver (tl four_calls)) = [Inr a, Inr b, Inr c]" by blast
  moreover have "run two_step_solver four_calls
      = (fst (run two_step_solver (tl four_calls)),
         Inl IndexError # snd (run two_step_solver (tl four_calls)))"
    using run_first_raises [OF bad, of "tl four_calls"] by (simp add: four_calls_def)
  ultimately show "\<exists>a b c. snd (run two_step_solver four_calls)
      = [Inl IndexError, Inr a, Inr b, Inr c]"
    by simp
qed

text \<open>The second-order update cannot run on a history that still holds a placeholder:
  the difference of an estimate of shape \<open>[1, 2]\<close> and the empty tensor does not
  broadcast.\<close>

lemma second_order_on_placeholder:
  assumes "shape d = [1, 2]"
  shows "multistep_dpm_solver_second_order_update
          (two_step_solver\<lparr>estimated_data := [empty_tensor, d]\<rparr>) tensor_1x2 0
        = Inl RuntimeError"
proof -
  let ?s = "two_step_solver\<lparr>estimated_data := [empty_tensor, d]\<rparr>"
  have ts: "second_order_timesteps ?s 0 = Inr (Idx0 1, Idx0 2, Idx0 1)"
    using second_order_timesteps_value [of 0 ?s] by (simp add: two_step_solver_facts)
  have idx: "tensor_index (signal_to_noise_ratios two_step_solver) (Idx0 1)
        = Inr (scalar_tensor (signal_to_noise_ratios two_step_solver ! 1))"
    "tensor_index (signal_to_noise_ratios two_step_solver) (Idx0 2)
        = Inr (scalar_tensor (signal_to_noise_ratios two_step_solver ! 2))"
    "tensor_index (cumulative_scale_factors two_step_solver) (Idx0 1)
        = Inr (scalar_tensor (cumulative_scale_factors two_step_solver ! 1))"
    "tensor_index (noise_std two_step_solver) (Idx0 1)
        = Inr (scalar_tensor (noise_std two_step_solver ! 1))"
    "tensor_index (noise_std two_step_solver) (Idx0 2)
        = Inr (scalar_tensor (noise_std two_step_solver ! 2))"
    by (simp_all add: tensor_index_scalar two_step_solver_facts)
  have sub: "broadcast_op (-) d empty_tensor = Inl RuntimeError"
    using assms by (simp add: broadcast_op_def broadcast_shapes_def empty_tensor_def)
  show ?thesis
    unfolding multistep_dpm_solver_second_order_update_def ts
    by (simp add: second_order_formula_def py_index_last_two idx sub)
qed

section \<open>The claims\<close>

text \<open>
  Claim C1, as amended.  In the second-order multistep update at a step index
  \<open>0 \<le> step < N\<close> (\<open>N\<close> the length of the timestep sequence), the previous timestep is
  \<open>timesteps[step + 1]\<close> when \<open>step + 1 < N\<close>; on the final step it is the one-element
  tensor \<^verbatim>\<open>tensor([0])\<close>, that is training timestep 0, and not \<open>timesteps[0]\<close>.  The current
  timestep is \<open>timesteps[step]\<close> and the next one \<open>timesteps[step - 1]\<close> (for \<open>step = 0\<close> the
  last entry, by negative indexing).  With a history of two well-formed estimates of
  the shape of \<open>x\<close>, and \<open>x\<close> of rank at least one, the update is the second-order
  formula with log-SNR, cumulative scale factor and noise standard deviation at
  \<open>prev\<close> read at that timestep: at array index 0 on the final step.
\<close>

theorem second_order_previous_timestep:
  assumes "schedule_ok s" and "0 \<le> step" and "step < int (length (timesteps s))"
    and "estimated_data s = [dn, dc]"
    and "wf_tensor x" and "wf_tensor dc" and "wf_tensor dn"
    and "shape dc = shape x" and "shape dn = shape x" and "shape x \<noteq> []"
  shows "second_order_timesteps s step =
       Inr (if step + 1 < int (length (timesteps s))
            then Idx0 (timesteps s ! nat (step + 1)) else Idx1 [0],
            Idx0 (timesteps s ! nat step),
            Idx0 (timesteps s ! nat (if step = 0 then int (length (timesteps s)) - 1
                                     else step - 1)))
     \<and> multistep_dpm_solver_second_order_update s x step =
       (let p = (if step + 1 < int (length (timesteps s))
                 then nat (timesteps s ! nat (step + 1)) else 0);
            c = nat (timesteps s ! nat step);
            n = nat (timesteps s ! nat (if step = 0 then int (length (timesteps s)) - 1
                                        else step - 1))
        in Inr \<lparr>shape = shape x,
                data = map (\<lambda>(xi, ci, ni).
                              spec_second_order (signal_to_noise_ratios s ! p)
                                (signal_to_noise_ratios s ! c) (signal_to_noise_ratios s ! n)
                                (noise_std s ! p) (noise_std s ! c)
                                (cumulative_scale_factors s ! p) xi ci ni)
                         (zip (data x) (zip (data dc) (data dn)))\<rparr>)"
  using second_order_timesteps_value [OF assms(2,3)] second_order_update_value [OF assms]
  by (rule conjI)

theorem second_order_previous_timestep_witness:
  "schedule_ok (two_step_solver\<lparr>estimated_data := [tensor_1x2, tensor_1x2]\<rparr>)
   \<and> wf_tensor tensor_1x2
   \<and> second_order_timesteps (two_step_solver\<lparr>estimated_data := [tensor_1x2, tensor_1x2]\<rparr>) 1
       = Inr (Idx1 [0], Idx0 1, Idx0 2)
   \<and> multistep_dpm_solver_second_order_update
         (two_step_solver\<lparr>estimated_data := [tensor_1x2, tensor_1x2]\<rparr>) tensor_1x2 1
       = Inr \<lparr>shape = [1, 2],
              data = map (\<lambda>(xi, ci, ni).
                            spec_second_order (signal_to_noise_ratios two_step_solver ! 0)
                              (signal_to_noise_ratios two_step_solver ! 1)
                              (signal_to_noise_ratios two_step_solver ! 2)
                              (noise_std two_step_solver ! 0) (noise_std two_step_solver ! 1)
                              (cumulative_scale_factors two_step_solver ! 0) xi ci ni)
                       (zip [1, 2] (zip [1, 2] [1, 2]))\<rparr>"
  using second_order_previous_timestep
      [of "two_step_solver\<lparr>estimated_data := [tensor_1x2, tensor_1x2]\<rparr>" 1
          tensor_1x2 tensor_1x2 tensor_1x2]
    schedule_ok_two_step_solver wf_examples
  by (simp add: two_step_solver_facts tensor_1x2_def)

theorem second_order_previous_timestep_counterexample:
  "second_order_timesteps two_step_solver 1 = Inr (Idx1 [0], Idx0 1, Idx0 2)
   \<and> py_index (timesteps two_step_solver) 0 = Inr 2
   \<and> Idx1 [0] \<noteq> Idx0 2
   \<and> tensor_index (noise_std two_step_solver) (Idx1 [0])
       = Inr \<lparr>shape = [1], data = [noise_std two_step_solver ! 0]\<rparr>
   \<and> noise_std two_step_solver ! 0 \<noteq> noise_std two_step_solver ! 2"
proof -
  have "noise_std two_step_solver \<noteq> []"
    using two_step_solver_facts(4) by auto
  then show ?thesis
    using second_order_timesteps_value [of 1 two_step_solver] two_step_solver_noise_std_differs
    by (simp add: two_step_solver_facts py_index_def tensor_index_zero_vector)
qed




text \<open>
  Claim C3, as amended.  With \<open>N\<close> the length of the timestep sequence: for every
  step with \<open>N \<le> step\<close> or \<open>step < -N\<close>, \<^verbatim>\<open>add_noise\<close> and the solver's step operation
  raise, and the step operation leaves the solver unchanged; nothing is clamped.
  The error is \<^verbatim>\<open>IndexError\<close> when the step fits a signed 64-bit integer, and
  \<^verbatim>\<open>ValueError\<close> when it does not.  For \<open>-N \<le> step < 0\<close> no error is raised for the
  index: \<^verbatim>\<open>add_noise\<close> returns what it returns for \<open>step + N\<close> (the step counts from
  the end of the timestep sequence), and so does the first call of the step
  operation on a solver.
\<close>

theorem step_index_policy:
  "(int (length (timesteps s)) \<le> step \<or> step < - int (length (timesteps s)) \<longrightarrow>
      add_noise s x noise step
        = Inl (if - (2 ^ 63) \<le> step \<and> step < 2 ^ 63 then IndexError else ValueError)
      \<and> DPMSolver_call s x noise step
        = (s, Inl (if - (2 ^ 63) \<le> step \<and> step < 2 ^ 63 then IndexError else ValueError)))
   \<and> (- int (length (timesteps s)) \<le> step \<and> step < 0 \<longrightarrow>
      add_noise s x noise step = add_noise s x noise (step + int (length (timesteps s)))
      \<and> (initial_steps s = 0 \<longrightarrow>
           DPMSolver_call s x noise step
             = DPMSolver_call s x noise (step + int (length (timesteps s)))))"
proof (intro conjI impI)
  assume out: "int (length (timesteps s)) \<le> step \<or> step < - int (length (timesteps s))"
  then show "add_noise s x noise step
      = Inl (if - (2 ^ 63) \<le> step \<and> step < 2 ^ 63 then IndexError else ValueError)"
    by (rule add_noise_index_error)
  show "DPMSolver_call s x noise step
      = (s, Inl (if - (2 ^ 63) \<le> step \<and> step < 2 ^ 63 then IndexError else ValueError))"
    using estimate_index_error [OF out] by (rule DPMSolver_call_estimate_raises)
next
  assume neg: "- int (length (timesteps s)) \<le> step \<and> step < 0"
  then show "add_noise s x noise step
      = add_noise s x noise (step + int (length (timesteps s)))"
    by (simp add: add_noise_negative_step)
  assume "initial_steps s = 0"
  then show "DPMSolver_call s x noise step
      = DPMSolver_call s x noise (step + int (length (timesteps s)))"
    using neg by (simp add: first_call_negative_step)
qed

theorem step_index_policy_witness:
  "add_noise two_step_solver tensor_1x2 tensor_1x2 2 = Inl IndexError
   \<and> DPMSolver_call two_step_solver tensor_1x2 tensor_1x2 (- 3) = (two_step_solver, Inl IndexError)
   \<and> add_noise two_step_solver tensor_1x2 tensor_1x2 (2 ^ 63) = Inl ValueError
   \<and> DPMSolver_call two_step_solver tensor_1x2 tensor_1x2 (- (2 ^ 63) - 1)
       = (two_step_solver, Inl ValueError)
   \<and> add_noise two_step_solver tensor_1x2 tensor_1x2 (- 2)
       = add_noise two_step_solver tensor_1x2 tensor_1x2 0
   \<and> DPMSolver_call two_step_solver tensor_1x2 tensor_1x2 (- 2)
       = DPMSolver_call two_step_solver tensor_1x2 tensor_1x2 0"
  using step_index_policy [of two_step_solver 2 tensor_1x2 tensor_1x2]
    step_index_policy [of two_step_solver "- 3" tensor_1x2 tensor_1x2]
    step_index_policy [of two_step_solver "2 ^ 63" tensor_1x2 tensor_1x2]
    step_index_policy [of two_step_solver "- (2 ^ 63) - 1" tensor_1x2 tensor_1x2]
    step_index_policy [of two_step_solver "- 2" tensor_1x2 tensor_1x2]
  by (simp add: two_step_solver_facts)

theorem negative_step_counterexample:
  "add_noise two_step_solver tensor_1x2 tensor_1x2 (- 1) =
       Inr \<lparr>shape = [1, 2],
            data = map2 (spec_add_noise (cumulative_scale_factors two_step_solver ! 1)
                           (noise_std two_step_solver ! 1)) [1, 2] [1, 2]\<rparr>
   \<and> tensor_item (timesteps two_step_solver) (- 1) = Inr 1
   \<and> tensor_item (timesteps two_step_solver) 1 = Inr 1"
  using add_noise_value [of two_step_solver 1 tensor_1x2 tensor_1x2]
    add_noise_negative_step [of two_step_solver "- 1" tensor_1x2 tensor_1x2]
    schedule_ok_two_step_solver wf_examples
  by (simp add: two_step_solver_facts tensor_1x2_def tensor_item_def py_index_def)

text \<open>
  Claim C4, as amended.  The timestep sequence is the reverse of the rounded
  double-precision samples of \<^verbatim>\<open>numpy.linspace(0, T - 1, N + 1)\<close> without the first
  one.  For every \<open>N \<ge> 0\<close> it has exactly \<open>N\<close> entries.  When \<open>1 \<le> N < T\<close> (and
  \<open>N \<le> 2^24\<close>, \<open>T \<le> 2^53\<close>, where rounding to binary64 cannot reorder the samples) it
  is strictly descending, starts with \<open>T - 1\<close> and lies within \<open>1 .. T - 1\<close>.  For
  \<open>T = 1000\<close> and \<open>N = 30\<close> it is the sequence \<open>999, 966, 932, \<dots>, 67, 33\<close>.  (With
  more inference steps than training timesteps it is not strictly descending.)
\<close>

theorem generate_timesteps_sequence:
  "(0 \<le> n_inference \<longrightarrow>
      (\<exists>ts. generate_timesteps n_train n_inference = Inr ts \<and> length ts = nat n_inference))
   \<and> (1 \<le> n_inference \<and> n_inference < n_train \<and> n_inference \<le> 2 ^ 24 \<and> n_train \<le> 2 ^ 53 \<longrightarrow>
      (\<exists>ts. generate_timesteps n_train n_inference = Inr ts \<and> sorted_wrt (>) ts
            \<and> hd ts = n_train - 1 \<and> (\<forall>x \<in> set ts. 1 \<le> x \<and> x \<le> n_train - 1)))
   \<and> generate_timesteps 1000 30 =
       Inr [999, 966, 932, 899, 866, 832, 799, 766, 733, 699, 666, 633, 599, 566, 533,
            499, 466, 433, 400, 366, 333, 300, 266, 233, 200, 166, 133, 100, 67, 33]"
proof (intro conjI impI)
  assume "0 \<le> n_inference"
  then show "\<exists>ts. generate_timesteps n_train n_inference = Inr ts \<and> length ts = nat n_inference"
    by (rule generate_timesteps_length)
next
  assume "1 \<le> n_inference \<and> n_inference < n_train \<and> n_inference \<le> 2 ^ 24 \<and> n_train \<le> 2 ^ 53"
  then show "\<exists>ts. generate_timesteps n_train n_inference = Inr ts \<and> sorted_wrt (>) ts
            \<and> hd ts = n_train - 1 \<and> (\<forall>x \<in> set ts. 1 \<le> x \<and> x \<le> n_train - 1)"
    using generate_timesteps_descending [of n_inference n_train] by blast
next
  show "generate_timesteps 1000 30 =
       Inr [999, 966, 932, 899, 866, 832, 799, 766, 733, 699, 666, 633, 599, 566, 533,
            499, 466, 433, 400, 366, 333, 300, 266, 233, 200, 166, 133, 100, 67, 33]"
    by (rule timesteps_1000_30)
qed

theorem generate_timesteps_sequence_witness:
  "length (projr (generate_timesteps 1000 30)) = 30
   \<and> sorted_wrt (>) (projr (generate_timesteps 1000 30))
   \<and> hd (projr (generate_timesteps 1000 30)) = 999
   \<and> generate_timesteps 1000 30 =
       Inr [999, 966, 932, 899, 866, 832, 799, 766, 733, 699, 666, 633, 599, 566, 533,
            499, 466, 433, 400, 366, 333, 300, 266, 233, 200, 166, 133, 100, 67, 33]"
proof -
  note t = generate_timesteps_sequence [of 30 1000]
  from t obtain ts where "generate_timesteps 1000 30 = Inr ts" "length ts = nat 30" by auto
  moreover from t obtain ts' where "generate_timesteps 1000 30 = Inr ts'" "sorted_wrt (>) ts'"
      "hd ts' = 1000 - 1"
    by auto
  moreover from t have "generate_timesteps 1000 30 =
       Inr [999, 966, 932, 899, 866, 832, 799, 766, 733, 699, 666, 633, 599, 566, 533,
            499, 466, 433, 400, 366, 333, 300, 266, 233, 200, 166, 133, 100, 67, 33]"
    by blast
  ultimately show ?thesis by simp
qed

theorem generate_timesteps_descending_counterexample:
  "generate_timesteps 2 3 = Inr [1, 1, 0] \<and> \<not> sorted_wrt (>) [1, 1, 0 :: int]"
  by (simp add: timesteps_2_3)

text \<open>
  Claim C5.  On the first call to a fresh solver (its counter \<open>initial_steps\<close> is
  zero), with a valid step \<open>0 \<le> step < N\<close> and well-formed \<open>x\<close> and \<open>noise\<close> of one
  shape, the result is the first-order update applied to the data estimate
  \<open>(x - noise_std[cur] * noise) / cumulative_scale_factor[cur]\<close>: elementwise
  \<open>(noise_std[prev] / noise_std[cur]) * x - cumulative_scale_factor[prev] * (h - 1) *
  data_estimate\<close> with \<open>h = exp (- (log_snr[prev] - log_snr[cur]))\<close>, where
  \<open>cur = timesteps[step]\<close> and \<open>prev = timesteps[step + 1]\<close> if \<open>step + 1 < N\<close> and
  \<open>timesteps[0]\<close> otherwise.
\<close>

theorem first_call_is_first_order_update:
  assumes "schedule_ok s" and "initial_steps s = 0"
    and "0 \<le> step" and "step < int (length (timesteps s))"
    and "wf_tensor x" and "wf_tensor noise" and "shape noise = shape x"
  shows "snd (DPMSolver_call s x noise step) =
     (let cur = nat (timesteps s ! nat step);
          prev = nat (timesteps s ! nat (if step + 1 < int (length (timesteps s))
                                          then step + 1 else 0))
      in Inr \<lparr>shape = shape x,
              data = map2 (\<lambda>xi ni.
                        spec_first_order (signal_to_noise_ratios s ! prev)
                          (signal_to_noise_ratios s ! cur) (noise_std s ! prev)
                          (noise_std s ! cur) (cumulative_scale_factors s ! prev) xi
                          (spec_data_estimate (noise_std s ! cur)
                             (cumulative_scale_factors s ! cur) xi ni))
                       (data x) (data noise)\<rparr>)"
proof -
  define d where "d = \<lparr>shape = shape x,
      data = map2 (spec_data_estimate (noise_std s ! nat (timesteps s ! nat step))
                     (cumulative_scale_factors s ! nat (timesteps s ! nat step)))
               (data x) (data noise)\<rparr>"
  have len: "length (data noise) = length (data x)" "length (data x) = prod_list (shape x)"
    using assms(5-7) by (simp_all add: wf_tensor_def)
  have est: "estimate_denoised_data s x noise step = Inr d"
    unfolding d_def using assms by (intro estimate_denoised_data_value)
  have d: "wf_tensor d" "shape d = shape x"
    using len by (simp_all add: d_def)
  have "snd (DPMSolver_call s x noise step) = dpm_solver_first_order_update s x d step"
    using est assms(2) by (rule DPMSolver_call_first)
  also note first_order_update_value [OF assms(1,3,4,5) d]
  finally show ?thesis
    unfolding Let_def d_def by (simp only: tensor.select_convs map2_nested)
qed

theorem first_call_is_first_order_update_witness:
  "schedule_ok two_step_solver \<and> initial_steps two_step_solver = 0
   \<and> wf_tensor tensor_1x2
   \<and> snd (DPMSolver_call two_step_solver tensor_1x2 tensor_1x2 0) =
       Inr \<lparr>shape = [1, 2],
            data = map2 (\<lambda>xi ni.
                      spec_first_order (signal_to_noise_ratios two_step_solver ! 1)
                        (signal_to_noise_ratios two_step_solver ! 2)
                        (noise_std two_step_solver ! 1)
                        (noise_std two_step_solver ! 2)
                        (cumulative_scale_factors two_step_solver ! 1) xi
                        (spec_data_estimate (noise_std two_step_solver ! 2)
                           (cumulative_scale_factors two_step_solver ! 2) xi ni))
                     [1, 2] [1, 2]\<rparr>"
  using first_call_is_first_order_update [of two_step_solver 0 tensor_1x2 tensor_1x2]
    schedule_ok_two_step_solver wf_examples
  by (simp add: two_step_solver_facts tensor_1x2_def)

text \<open>
  Claim C6, as amended.  The counter goes up by one with every step call that
  returns, stays at 2 once it is there, and is left as it is by a call that raises.
  So on a solver whose counter is zero, before call number \<open>k\<close> of a sequence the
  counter is the number of earlier calls that returned, at most 2.  The branch is
  chosen by the counter alone, whatever the step arguments are: a call that gets as
  far as its data estimate returns the first-order update when no earlier call has
  returned, and the second-order multistep update on the extended history otherwise.
  The first-order branch is therefore taken by every call up to the first one that
  returns, and not only by the first call.
\<close>

theorem counter_counts_returned_calls:
  assumes "initial_steps s0 = 0"
    and "k < length calls" and "calls ! k = (x, noise, step)"
  shows "(let sk = fst (run s0 (take k calls));
              returned = length (filter (\<lambda>r. \<not> isl r) (take k (snd (run s0 calls))))
          in initial_steps sk = min (int returned) 2
             \<and> snd (run s0 calls) ! k = snd (DPMSolver_call sk x noise step)
             \<and> snd (DPMSolver_call sk x noise step) =
                 (case estimate_denoised_data sk x noise step of
                    Inl e \<Rightarrow> Inl e
                  | Inr d \<Rightarrow>
                      if returned = 0 then dpm_solver_first_order_update sk x d step
                      else multistep_dpm_solver_second_order_update
                             (sk\<lparr>estimated_data := deque_append 2 (estimated_data sk) d\<rparr>)
                             x step)
             \<and> initial_steps (fst (DPMSolver_call sk x noise step)) =
                 (if isl (snd (DPMSolver_call sk x noise step)) then initial_steps sk
                  else min (initial_steps sk + 1) 2))
     \<and> initial_steps (fst (run s0 calls))
         = min (int (length (filter (\<lambda>r. \<not> isl r) (snd (run s0 calls))))) 2"
proof -
  define sk where "sk = fst (run s0 (take k calls))"
  define returned where
    "returned = length (filter (\<lambda>r. \<not> isl r) (take k (snd (run s0 calls))))"
  have ck: "initial_steps sk = min (int returned) 2"
    using run_counter_returned [of s0 "take k calls"] assms(1)
    by (simp add: sk_def returned_def run_take_results)
  have cn: "initial_steps (fst (run s0 calls))
      = min (int (length (filter (\<lambda>r. \<not> isl r) (snd (run s0 calls))))) 2"
    using run_counter_returned [of s0 calls] assms(1) by simp
  have nth: "snd (run s0 calls) ! k = snd (DPMSolver_call sk x noise step)"
    unfolding sk_def using assms(2,3) by (rule run_nth_result)
  have zero: "initial_steps sk = 0 \<longleftrightarrow> returned = 0"
    using ck by (auto simp: min_def)
  have res: "snd (DPMSolver_call sk x noise step) =
      (case estimate_denoised_data sk x noise step of
         Inl e \<Rightarrow> Inl e
       | Inr d \<Rightarrow>
           if returned = 0 then dpm_solver_first_order_update sk x d step
           else multistep_dpm_solver_second_order_update
                  (sk\<lparr>estimated_data := deque_append 2 (estimated_data sk) d\<rparr>) x step)"
  proof (cases "estimate_denoised_data sk x noise step")
    case (Inl e)
    then show ?thesis by (simp add: DPMSolver_call_estimate_raises)
  next
    case (Inr d)
    then show ?thesis using zero by (simp add: DPMSolver_call_result [OF Inr])
  qed
  have "0 \<le> initial_steps sk" "initial_steps sk \<le> 2" using ck by simp_all
  then have step: "initial_steps (fst (DPMSolver_call sk x noise step)) =
      (if isl (snd (DPMSolver_call sk x noise step)) then initial_steps sk
       else min (initial_steps sk + 1) 2)"
    by (auto simp: DPMSolver_call_counter min_def)
  show ?thesis
    unfolding Let_def sk_def [symmetric] returned_def [symmetric]
    using ck nth res step cn by (intro conjI)
qed

theorem counter_counts_returned_calls_witness:
  "initial_steps two_step_solver = 0
   \<and> initial_steps (fst (run two_step_solver (take 1 four_calls))) = 0
   \<and> initial_steps (fst (run two_step_solver (take 3 four_calls))) = 2
   \<and> initial_steps (fst (run two_step_solver four_calls)) = 2
   \<and> snd (run two_step_solver four_calls) ! 1
       = dpm_solver_first_order_update two_step_solver tensor_1x2
           (projr (estimate_denoised_data two_step_solver tensor_1x2 tensor_1x2 0)) 0"
proof -
  obtain a b c where rs: "snd (run two_step_solver four_calls)
      = [Inl IndexError, Inr a, Inr b, Inr c]"
    using four_calls_results(2) by blast
  have c0: "initial_steps two_step_solver = 0" by (simp add: two_step_solver_facts)
  have k1: "1 < length four_calls" "four_calls ! 1 = (tensor_1x2, tensor_1x2, 0)"
    and k3: "3 < length four_calls" "four_calls ! 3 = (tensor_1x2, tensor_1x2, 1)"
    by (simp_all add: four_calls_def)
  note t1 = counter_counts_returned_calls [OF c0 k1, unfolded Let_def four_calls_results(1)]
  note t3 = counter_counts_returned_calls [OF c0 k3, unfolded Let_def]
  have n1: "length (filter (\<lambda>r. \<not> isl r) (take 1 (snd (run two_step_solver four_calls)))) = 0"
    and n3: "length (filter (\<lambda>r. \<not> isl r) (take 3 (snd (run two_step_solver four_calls)))) = 2"
    and n4: "length (filter (\<lambda>r. \<not> isl r) (snd (run two_step_solver four_calls))) = 3"
    by (simp_all add: rs)
  obtain d where d: "estimate_denoised_data two_step_solver tensor_1x2 tensor_1x2 0 = Inr d"
    using estimate_denoised_data_value [OF schedule_ok_two_step_solver, of 0 tensor_1x2 tensor_1x2]
      wf_examples
    by (simp add: two_step_solver_facts)
  from t1 have "initial_steps two_step_solver = min (int 0) 2"
    unfolding n1 by blast
  from t1 have "snd (run two_step_solver four_calls) ! 1
      = snd (DPMSolver_call two_step_solver tensor_1x2 tensor_1x2 0)"
    and "snd (DPMSolver_call two_step_solver tensor_1x2 tensor_1x2 0) =
        (case estimate_denoised_data two_step_solver tensor_1x2 tensor_1x2 0 of
           Inl e \<Rightarrow> Inl e
         | Inr d \<Rightarrow>
             if (0::nat) = 0 then dpm_solver_first_order_update two_step_solver tensor_1x2 d 0
             else multistep_dpm_solver_second_order_update
                    (two_step_solver\<lparr>estimated_data :=
                       deque_append 2 (estimated_data two_step_solver) d\<rparr>) tensor_1x2 0)"
    unfolding n1 by blast+
  then have first: "snd (run two_step_solver four_calls) ! 1
       = dpm_solver_first_order_update two_step_solver tensor_1x2
           (projr (estimate_denoised_data two_step_solver tensor_1x2 tensor_1x2 0)) 0"
    by (simp add: d)
  from t3 have "initial_steps (fst (run two_step_solver (take 3 four_calls))) = min (int 2) 2"
    and "initial_steps (fst (run two_step_solver four_calls)) = min (int 3) 2"
    unfolding n3 n4 by blast+
  then have c3: "initial_steps (fst (run two_step_solver (take 3 four_calls))) = 2"
    and c4: "initial_steps (fst (run two_step_solver four_calls)) = 2"
    by simp_all
  have c1: "initial_steps (fst (run two_step_solver (take 1 four_calls))) = 0"
    by (simp only: four_calls_results(1) c0)
  from c0 c1 c3 c4 first show ?thesis by blast
qed

theorem later_call_first_order_counterexample:
  "snd (run two_step_solver (take 2 four_calls))
     = [Inl IndexError, snd (DPMSolver_call two_step_solver tensor_1x2 tensor_1x2 0)]
   \<and> snd (DPMSolver_call two_step_solver tensor_1x2 tensor_1x2 0)
     = dpm_solver_first_order_update two_step_solver tensor_1x2
         (projr (estimate_denoised_data two_step_solver tensor_1x2 tensor_1x2 0)) 0
   \<and> \<not> isl (snd (DPMSolver_call two_step_solver tensor_1x2 tensor_1x2 0))
   \<and> multistep_dpm_solver_second_order_update
         (two_step_solver\<lparr>estimated_data :=
            deque_append 2 (estimated_data two_step_solver)
              (projr (estimate_denoised_data two_step_solver tensor_1x2 tensor_1x2 0))\<rparr>)
         tensor_1x2 0
     = Inl RuntimeError
   \<and> initial_steps (fst (run two_step_solver (take 2 four_calls))) = 1"
proof -
  have bad: "estimate_denoised_data two_step_solver tensor_1x2 tensor_1x2 5 = Inl IndexError"
    using estimate_index_error [of two_step_solver 5 tensor_1x2 tensor_1x2]
    by (simp add: two_step_solver_facts)
  have run: "run two_step_solver (take 2 four_calls)
      = (fst (DPMSolver_call two_step_solver tensor_1x2 tensor_1x2 0),
         [Inl IndexError, snd (DPMSolver_call two_step_solver tensor_1x2 tensor_1x2 0)])"
    by (simp add: four_calls_def numeral_2_eq_2 DPMSolver_call_estimate_raises [OF bad]
        split_def Let_def)
  have ret: "\<not> isl (snd (DPMSolver_call two_step_solver tensor_1x2 tensor_1x2 0))"
    using valid_call_returns(1) [OF schedule_ok_two_step_solver, of tensor_1x2 0 tensor_1x2]
      wf_examples
    by (simp add: two_step_solver_facts tensor_1x2_def)
  obtain d where d: "estimate_denoised_data two_step_solver tensor_1x2 tensor_1x2 0 = Inr d"
    and sh: "shape d = [1, 2]"
    using estimate_denoised_data_value [OF schedule_ok_two_step_solver, of 0 tensor_1x2 tensor_1x2]
      wf_examples
    by (simp add: two_step_solver_facts tensor_1x2_def)
  have first: "snd (DPMSolver_call two_step_solver tensor_1x2 tensor_1x2 0)
     = dpm_solver_first_order_update two_step_solver tensor_1x2
         (projr (estimate_denoised_data two_step_solver tensor_1x2 tensor_1x2 0)) 0"
    using DPMSolver_call_first [OF d] by (simp add: d two_step_solver_facts)
  have second: "multistep_dpm_solver_second_order_update
         (two_step_solver\<lparr>estimated_data :=
            deque_append 2 (estimated_data two_step_solver)
              (projr (estimate_denoised_data two_step_solver tensor_1x2 tensor_1x2 0))\<rparr>)
         tensor_1x2 0
     = Inl RuntimeError"
    using second_order_on_placeholder [OF sh]
    by (simp add: d two_step_solver_facts deque_append_two)
  have "initial_steps (fst (DPMSolver_call two_step_solver tensor_1x2 tensor_1x2 0)) = 1"
    using ret by (simp add: DPMSolver_call_counter two_step_solver_facts)
  then show ?thesis using run ret first second by simp
qed

text \<open>
  Claim C7, as amended.  For well-formed \<open>x\<close> and \<open>noise\<close> of one shape with at least
  two dimensions, and a valid step \<open>0 \<le> step < N\<close>, \<^verbatim>\<open>add_noise\<close> returns the tensor of
  the shape of \<open>x\<close> whose elements are \<open>cumulative_scale_factor[t] * x + noise_std[t] *
  noise\<close> with \<open>t = timesteps[step]\<close>.  (The function returns this tensor only; it
  assigns to no attribute of the scheduler.)  For a tensor of fewer than two
  dimensions the result has two dimensions, not the shape of \<open>x\<close>.
\<close>

theorem add_noise_formula:
  assumes "schedule_ok s" and "0 \<le> step" and "step < int (length (timesteps s))"
    and "wf_tensor x" and "wf_tensor noise" and "shape noise = shape x"
    and "2 \<le> length (shape x)"
  shows "add_noise s x noise step =
     (let t = nat (timesteps s ! nat step)
      in Inr \<lparr>shape = shape x,
              data = map2 (spec_add_noise (cumulative_scale_factors s ! t) (noise_std s ! t))
                       (data x) (data noise)\<rparr>)"
  using assms by (rule add_noise_value)

theorem add_noise_formula_witness:
  "schedule_ok two_step_solver \<and> wf_tensor tensor_1x2
   \<and> add_noise two_step_solver tensor_1x2 tensor_1x2 0 =
       Inr \<lparr>shape = [1, 2],
            data = map2 (spec_add_noise (cumulative_scale_factors two_step_solver ! 2)
                           (noise_std two_step_solver ! 2)) [1, 2] [1, 2]\<rparr>"
  using add_noise_formula [of two_step_solver 0 tensor_1x2 tensor_1x2]
    schedule_ok_two_step_solver wf_examples
  by (simp add: two_step_solver_facts tensor_1x2_def)

theorem add_noise_shape_counterexample:
  "map_sum id shape (add_noise two_step_solver tensor_2 tensor_2 0) = Inr [1, 2]
   \<and> shape tensor_2 = [2] \<and> wf_tensor tensor_2"
  unfolding add_noise_rank_one by (simp add: tensor_2_def wf_tensor_def)

text \<open>
  Claim C8.  A call of \<^verbatim>\<open>to\<close> with a dtype and no device returns without raising,
  leaves the timestep sequence and the device as they are and records the dtype.
  Each value of the four schedule arrays, when it is within the finite range of the
  dtype, is replaced by a finite number of the dtype that is nearest to the stored
  value; a second conversion to the same dtype changes nothing.  The hyperparameters
  play no part: changing them in the scheduler changes nothing in the converted
  arrays.
\<close>

theorem precision_only_transfer:
  assumes "finite_in dt (scale_factors s)" and "finite_in dt (cumulative_scale_factors s)"
    and "finite_in dt (noise_std s)" and "finite_in dt (signal_to_noise_ratios s)"
  shows "\<exists>s'. Scheduler_to Device s None (Some dt) = Inr s'
     \<and> timesteps s' = timesteps s \<and> device s' = device s \<and> dtype s' = dt
     \<and> list_all2 (nearest_representable dt) (scale_factors s) (scale_factors s')
     \<and> list_all2 (nearest_representable dt) (cumulative_scale_factors s)
         (cumulative_scale_factors s')
     \<and> list_all2 (nearest_representable dt) (noise_std s) (noise_std s')
     \<and> list_all2 (nearest_representable dt) (signal_to_noise_ratios s)
         (signal_to_noise_ratios s')
     \<and> Scheduler_to Device s' None (Some dt) = Inr s'
     \<and> Scheduler_to Device
         (s\<lparr>num_train_timesteps := t', initial_diffusion_rate := r1,
            final_diffusion_rate := r2\<rparr>) None (Some dt)
       = Inr (s'\<lparr>num_train_timesteps := t', initial_diffusion_rate := r1,
                 final_diffusion_rate := r2\<rparr>)"
  using assms
  by (simp add: Scheduler_to_dtype map_round_to_nearest)

theorem precision_only_transfer_witness:
  "finite_in float16 (scale_factors stored_scheduler)
   \<and> Scheduler_to torch_device stored_scheduler None (Some float16)
       = Inr (stored_scheduler\<lparr>dtype := float16, scale_factors := [819 / 2 ^ 13]\<rparr>)
   \<and> nearest_representable float16 (13421773 / 2 ^ 27) (819 / 2 ^ 13)"
proof -
  have fin: "finite_in float16 (scale_factors stored_scheduler)"
    "finite_in float16 (cumulative_scale_factors stored_scheduler)"
    "finite_in float16 (noise_std stored_scheduler)"
    "finite_in float16 (signal_to_noise_ratios stored_scheduler)"
    by (simp_all add: finite_in_def stored_scheduler_def largest_float16)
  have exact: "round_to float16 (1 / 4) = 1 / 4" "round_to float16 (3 / 4) = 3 / 4"
    "round_to float16 (- 1) = - 1"
    using round_to_dyadic [of 1 float16 2] round_to_dyadic [of 3 float16 2]
    by (simp_all add: precision_def min_exponent_def)
  have to: "Scheduler_to torch_device stored_scheduler None (Some float16)
       = Inr (stored_scheduler\<lparr>dtype := float16, scale_factors := [819 / 2 ^ 13]\<rparr>)"
    unfolding Scheduler_to_dtype
    by (simp add: stored_scheduler_def round16_tenth_numeral exact)
  from precision_only_transfer [OF fin, of torch_device]
  have "list_all2 (nearest_representable float16) (scale_factors stored_scheduler)
      (scale_factors (stored_scheduler\<lparr>dtype := float16, scale_factors := [819 / 2 ^ 13]\<rparr>))"
    unfolding to by simp
  then have "nearest_representable float16 (13421773 / 2 ^ 27) (819 / 2 ^ 13)"
    by (simp add: stored_scheduler_def)
  then show ?thesis using fin(1) to by simp
qed

text \<open>
  Claim C9, as amended.  The schedule arrays are float32 numbers, and in float32
  the claimed invariant holds without its strictness.  For every construction with
  \<open>0 < initial_diffusion_rate < final_diffusion_rate < 1\<close> that returns, the cumulative
  scale factors are non-increasing, the noise standard deviations are
  non-decreasing, both lie in the closed interval \<open>[0, 1]\<close>, and the log
  signal-to-noise ratios are non-increasing as far as they are finite (from an index
  with a positive noise standard deviation to a later one with a positive cumulative
  scale factor).  Computed in exact arithmetic, the same arrays satisfy the
  invariant as claimed: strictly monotone and strictly between 0 and 1.
\<close>

theorem schedule_invariants_float32:
  assumes "0 < r1" and "r1 < r2" and "r2 < 1"
    and "Scheduler_init Device generate n t r1 r2 dev float32 = Inr s"
  shows "sorted_wrt (\<ge>) (cumulative_scale_factors s)
     \<and> sorted_wrt (\<le>) (noise_std s)
     \<and> (\<forall>v \<in> set (cumulative_scale_factors s). 0 \<le> v \<and> v \<le> 1)
     \<and> (\<forall>v \<in> set (noise_std s). 0 \<le> v \<and> v \<le> 1)
     \<and> (\<forall>i j. i < j \<and> j < length (signal_to_noise_ratios s) \<and> 0 < noise_std s ! i
            \<and> 0 < cumulative_scale_factors s ! j
            \<longrightarrow> signal_to_noise_ratios s ! j \<le> signal_to_noise_ratios s ! i)
     \<and> (\<exists>sf csf ns snr.
          schedule_arrays (\<lambda>x. x) (\<lambda>x. x) (sqrt r1) (sqrt r2) t = Inr (sf, csf, ns, snr)
          \<and> length csf = length (cumulative_scale_factors s)
          \<and> sorted_wrt (>) csf \<and> sorted_wrt (<) ns
          \<and> (\<forall>v \<in> set csf. 0 < v \<and> v < 1) \<and> (\<forall>v \<in> set ns. 0 < v \<and> v < 1)
          \<and> sorted_wrt (>) snr)"
proof -
  have r: "0 \<le> r1" "r1 \<le> r2" "r2 \<le> 1" "0 \<le> r2" using assms(1-3) by simp_all
  note w = Scheduler_init_weak [OF r(1-3) assms(4)]
  note t = Scheduler_init_train_range [OF assms(4) r(1,4)]
  obtain sf csf ns snr where
    e: "schedule_arrays (\<lambda>x. x) (\<lambda>x. x) (sqrt r1) (sqrt r2) t = Inr (sf, csf, ns, snr)"
      "length csf = nat t"
    using schedule_arrays_returns [OF t(1,2)] by blast
  note x = schedule_invariants_exact [OF assms(1-3) e(1)]
  have "schedule_arrays (\<lambda>x. x) (\<lambda>x. x) (sqrt r1) (sqrt r2) t = Inr (sf, csf, ns, snr)
          \<and> length csf = length (cumulative_scale_factors s)
          \<and> sorted_wrt (>) csf \<and> sorted_wrt (<) ns
          \<and> (\<forall>v \<in> set csf. 0 < v \<and> v < 1) \<and> (\<forall>v \<in> set ns. 0 < v \<and> v < 1)
          \<and> sorted_wrt (>) snr"
    using e x t(3) by simp
  then show ?thesis using w by blast
qed

theorem schedule_invariants_float32_witness:
  "Scheduler_init torch_device generate_timesteps 2 3 (1 / 16) (1 / 4) ''cpu'' float32
     = Inr two_step_scheduler
   \<and> sorted_wrt (\<ge>) (cumulative_scale_factors two_step_scheduler)
   \<and> sorted_wrt (\<le>) (noise_std two_step_scheduler)
   \<and> 0 \<le> noise_std two_step_scheduler ! 2 \<and> noise_std two_step_scheduler ! 2 \<le> 1"
proof -
  note t = schedule_invariants_float32
      [of "1 / 16" "1 / 4" torch_device generate_timesteps 2 3 "''cpu''" two_step_scheduler]
  have "(0::real) < 1 / 16" "(1::real) / 16 < 1 / 4" "(1::real) / 4 < 1" by simp_all
  note c = t [OF this two_step_scheduler_facts(1)]
  have "noise_std two_step_scheduler ! 2 \<in> set (noise_std two_step_scheduler)"
    by (simp add: two_step_scheduler_facts(2))
  with c have "0 \<le> noise_std two_step_scheduler ! 2 \<and> noise_std two_step_scheduler ! 2 \<le> 1"
    by blast
  with c show ?thesis
    using two_step_scheduler_facts(1) by blast
qed

theorem schedule_invariants_counterexample:
  "(0::real) < (1 - 1 / 2 ^ 23) ^ 2 \<and> ((1 - 1 / 2 ^ 23) ^ 2 :: real) < (1 - 1 / 2 ^ 24) ^ 2
   \<and> ((1 - 1 / 2 ^ 24) ^ 2 :: real) < 1
   \<and> Scheduler_init torch_device generate_timesteps 1 2 ((1 - 1 / 2 ^ 23) ^ 2)
       ((1 - 1 / 2 ^ 24) ^ 2) ''cpu'' float32 = Inr saturated_scheduler
   \<and> length (noise_std saturated_scheduler) = 2
   \<and> noise_std saturated_scheduler ! 1 = 1"
proof -
  have "(0::real) \<le> 1 - 1 / 2 ^ 23" "(1 - 1 / 2 ^ 23 :: real) < 1 - 1 / 2 ^ 24"
    "(0::real) \<le> 1 - 1 / 2 ^ 24" "(1 - 1 / 2 ^ 24 :: real) < 1"
    by simp_all
  then have "((1 - 1 / 2 ^ 23) ^ 2 :: real) < (1 - 1 / 2 ^ 24) ^ 2"
    "((1 - 1 / 2 ^ 24) ^ 2 :: real) < 1 ^ 2"
    by (intro power_strict_mono; simp)+
  moreover have "(0::real) < (1 - 1 / 2 ^ 23) ^ 2" by simp
  moreover have "length (noise_std saturated_scheduler) = 2"
    "noise_std saturated_scheduler ! 1 = 1"
    by (simp_all add: saturated_scheduler_facts(2))
  ultimately show ?thesis using saturated_scheduler_facts(1) by simp
qed

text \<open>
  Claim C10.  A freshly constructed solver has the history
  \<^verbatim>\<open>[tensor([]), tensor([])]\<close>.  A history of two entries has two entries after every
  step call and after every sequence of step calls.  A step call with a valid step
  and well-formed \<open>x\<close> and \<open>noise\<close> of one shape appends its data estimate
  \<open>(x - noise_std[t] * noise) / cumulative_scale_factor[t]\<close> and drops the oldest
  entry, also when the update that follows raises; a call that raises before its
  data estimate leaves the history as it is.  The two placeholders are never read:
  on a solver with counter zero, the results of every sequence of step calls (in
  particular of the steps \<open>0, 1, \<dots>, N - 1\<close> in order) are the same whatever tensors
  stand in the two slots.
\<close>

theorem history_holds_two_estimates:
  "(DPMSolver_init Device n_inference n_train initial_rate final_rate dev = Inr s0 \<longrightarrow>
      estimated_data s0 = [empty_tensor, empty_tensor])
   \<and> (length (estimated_data s) = 2 \<longrightarrow>
        length (estimated_data (fst (DPMSolver_call s x noise step))) = 2
        \<and> estimated_data (fst (DPMSolver_call s x noise step)) =
            (case estimate_denoised_data s x noise step of
               Inl e \<Rightarrow> estimated_data s
             | Inr d \<Rightarrow> [estimated_data s ! 1, d])
        \<and> length (estimated_data (fst (run s calls))) = 2)
   \<and> (length (estimated_data s) = 2 \<and> schedule_ok s
        \<and> 0 \<le> step \<and> step < int (length (timesteps s))
        \<and> wf_tensor x \<and> wf_tensor noise \<and> shape noise = shape x \<longrightarrow>
        estimated_data (fst (DPMSolver_call s x noise step)) =
          [estimated_data s ! 1,
           \<lparr>shape = shape x,
            data = map2 (spec_data_estimate (noise_std s ! nat (timesteps s ! nat step))
                           (cumulative_scale_factors s ! nat (timesteps s ! nat step)))
                     (data x) (data noise)\<rparr>])
   \<and> (length (estimated_data s) = 2 \<and> initial_steps s = 0 \<longrightarrow>
        snd (run (s\<lparr>estimated_data := [p, q]\<rparr>) calls) = snd (run s calls))"
proof (intro conjI impI)
  assume "DPMSolver_init Device n_inference n_train initial_rate final_rate dev = Inr s0"
  then show "estimated_data s0 = [empty_tensor, empty_tensor]"
    by (simp add: DPMSolver_init_fresh)
next
  assume len: "length (estimated_data s) = 2"
  then show "length (estimated_data (fst (DPMSolver_call s x noise step))) = 2"
    by (rule DPMSolver_call_history_length)
  show "estimated_data (fst (DPMSolver_call s x noise step)) =
            (case estimate_denoised_data s x noise step of
               Inl e \<Rightarrow> estimated_data s
             | Inr d \<Rightarrow> [estimated_data s ! 1, d])"
    using len by (rule DPMSolver_call_history)
  show "length (estimated_data (fst (run s calls))) = 2"
    using len by (rule run_history_length)
next
  assume v: "length (estimated_data s) = 2 \<and> schedule_ok s
        \<and> 0 \<le> step \<and> step < int (length (timesteps s))
        \<and> wf_tensor x \<and> wf_tensor noise \<and> shape noise = shape x"
  then have "estimate_denoised_data s x noise step =
     Inr \<lparr>shape = shape x,
          data = map2 (spec_data_estimate (noise_std s ! nat (timesteps s ! nat step))
                         (cumulative_scale_factors s ! nat (timesteps s ! nat step)))
                   (data x) (data noise)\<rparr>"
    by (intro estimate_denoised_data_value) simp_all
  then show "estimated_data (fst (DPMSolver_call s x noise step)) =
          [estimated_data s ! 1,
           \<lparr>shape = shape x,
            data = map2 (spec_data_estimate (noise_std s ! nat (timesteps s ! nat step))
                           (cumulative_scale_factors s ! nat (timesteps s ! nat step)))
                     (data x) (data noise)\<rparr>]"
    using v by (simp add: DPMSolver_call_history)
next
  assume "length (estimated_data s) = 2 \<and> initial_steps s = 0"
  then show "snd (run (s\<lparr>estimated_data := [p, q]\<rparr>) calls) = snd (run s calls)"
    using run_placeholders [of "[p, q]" s calls] by simp
qed

theorem history_holds_two_estimates_witness:
  "DPMSolver_init torch_device 2 3 (1 / 16) (1 / 4) ''cpu'' = Inr two_step_solver
   \<and> estimated_data two_step_solver = [empty_tensor, empty_tensor]
   \<and> estimated_data (fst (DPMSolver_call two_step_solver tensor_1x2 tensor_1x2 0)) =
       [empty_tensor,
        \<lparr>shape = [1, 2],
         data = map2 (spec_data_estimate (noise_std two_step_solver ! 2)
                        (cumulative_scale_factors two_step_solver ! 2)) [1, 2] [1, 2]\<rparr>]
   \<and> length (estimated_data (fst (run two_step_solver two_calls))) = 2
   \<and> snd (run (two_step_solver\<lparr>estimated_data := [tensor_1x2, tensor_2]\<rparr>) two_calls)
       = snd (run two_step_solver two_calls)"
proof -
  note t = history_holds_two_estimates
    [of torch_device 2 3 "1 / 16" "1 / 4" "''cpu''" two_step_solver two_step_solver
        tensor_1x2 tensor_1x2 0 two_calls tensor_1x2 tensor_2]
  have len: "length (estimated_data two_step_solver) = 2"
    and fresh: "initial_steps two_step_solver = 0"
    by (simp_all add: two_step_solver_facts)
  have valid: "length (estimated_data two_step_solver) = 2 \<and> schedule_ok two_step_solver
        \<and> 0 \<le> (0::int) \<and> 0 < int (length (timesteps two_step_solver))
        \<and> wf_tensor tensor_1x2 \<and> wf_tensor tensor_1x2 \<and> shape tensor_1x2 = shape tensor_1x2"
    using schedule_ok_two_step_solver wf_examples by (simp add: two_step_solver_facts)
  from t valid
  have "estimated_data (fst (DPMSolver_call two_step_solver tensor_1x2 tensor_1x2 0)) =
          [estimated_data two_step_solver ! 1,
           \<lparr>shape = shape tensor_1x2,
            data = map2 (spec_data_estimate
                           (noise_std two_step_solver ! nat (timesteps two_step_solver ! nat 0))
                           (cumulative_scale_factors two_step_solver
                              ! nat (timesteps two_step_solver ! nat 0)))
                     (data tensor_1x2) (data tensor_1x2)\<rparr>]"
    by blast
  then have 1: "estimated_data (fst (DPMSolver_call two_step_solver tensor_1x2 tensor_1x2 0)) =
       [empty_tensor,
        \<lparr>shape = [1, 2],
         data = map2 (spec_data_estimate (noise_std two_step_solver ! 2)
                        (cumulative_scale_factors two_step_solver ! 2)) [1, 2] [1, 2]\<rparr>]"
    by (simp add: two_step_solver_facts tensor_1x2_def)
  from t len have 2: "length (estimated_data (fst (run two_step_solver two_calls))) = 2"
    by blast
  from t len fresh
  have 3: "snd (run (two_step_solver\<lparr>estimated_data := [tensor_1x2, tensor_2]\<rparr>) two_calls)
       = snd (run two_step_solver two_calls)"
    by blast
  show ?thesis
    using 1 2 3 by (simp add: two_step_solver_facts)
qed

end
